theory Spec2Isabelle
  imports Complex_Main
begin

section \<open>Shared data: errors, reviews, cursors\<close>

text \<open>
  Exceptions of the Python sources are values of \<open>error\<close>; a function that may raise
  returns \<open>error + 'a\<close> with \<open>Inl\<close> for the raised exception.
\<close>

datatype error =
    BackendError string
  | RuntimeError string
  | TypeError
  | UnboundLocalError
  | ValueError
  | KeyError string
  | GroupError string
  | TransportError string
  | ArchiveError string
  | AttributeError

text \<open>
  A Gerrit review is a JSON object. The fetch loops read \<open>lastUpdated\<close> (an integer UNIX
  timestamp) and, on old servers, \<open>sortKey\<close>; \<open>number\<close> identifies the review. The fetch
  engine reads no other field.
\<close>

record review =
  number :: string
  lastUpdated :: int
  sortKey :: string

text \<open>
  \<open>last_item\<close> of the source is \<open>None\<close>, an integer offset or a sort key string.
\<close>

datatype cursor = Offset int | SortKey string

type_synonym version = "int \<times> int"

section \<open>GerritClient.next_retrieve_group_item\<close>

definition next_retrieve_group_item ::
  "version \<Rightarrow> cursor option \<Rightarrow> review option \<Rightarrow> error + cursor option" where
  "next_retrieve_group_item gerrit_version last_item entry =
     (if (fst gerrit_version = 2 \<and> snd gerrit_version > 9) \<or> fst gerrit_version = 3 then
        (case last_item of
           None \<Rightarrow> Inr (Some (Offset 0))
         | Some c \<Rightarrow> Inr (Some c))
      else if fst gerrit_version = 2 \<and> snd gerrit_version = 9 then
        Inl (BackendError ''Gerrit 2.9.0 does not support pagination'')
      else
        (case entry of
           None \<Rightarrow> Inr None
         | Some e \<Rightarrow> Inr (Some (SortKey (sortKey e)))))"

section \<open>Python string helpers\<close>

text \<open>
  Strings are lists of characters, read as code points below 256. \<open>str(n)\<close> for an
  integer, \<open>sep.join(xs)\<close>, the \<open>%s\<close> rendering of an optional string and the truth
  value of an optional string (\<open>None\<close> and the empty string are false).
\<close>

fun str_nat :: "nat \<Rightarrow> string" where
  "str_nat n =
     (if n < 10 then [''0123456789'' ! n]
      else str_nat (n div 10) @ [''0123456789'' ! (n mod 10)])"

declare str_nat.simps [simp del]

definition str_int :: "int \<Rightarrow> string" where
  "str_int i = (if i < 0 then CHR ''-'' # str_nat (nat (- i)) else str_nat (nat i))"

fun join :: "string \<Rightarrow> string list \<Rightarrow> string" where
  "join sep [] = []"
| "join sep [x] = x"
| "join sep (x # y # ys) = x @ sep @ join sep (y # ys)"

definition fmt_s :: "string option \<Rightarrow> string" where
  "fmt_s v = (case v of None \<Rightarrow> ''None'' | Some s \<Rightarrow> s)"

definition truthy :: "string option \<Rightarrow> bool" where
  "truthy v \<longleftrightarrow> (case v of None \<Rightarrow> False | Some s \<Rightarrow> s \<noteq> [])"

text \<open>
  The characters that the pattern \<open>\s\<close> of Python's \<open>re\<close> matches in a \<open>str\<close>, among the
  code points below 256: TAB, LF, VT, FF, CR, the separators 0x1C to 0x1F, the space,
  NEL (0x85) and the no-break space (0xA0).
\<close>

definition py_isspace :: "char \<Rightarrow> bool" where
  "py_isspace c \<longleftrightarrow> (of_char c :: nat) \<in> {9, 10, 11, 12, 13, 28, 29, 30, 31, 32, 133, 160}"

definition non_space :: "char \<Rightarrow> bool" where
  "non_space c \<longleftrightarrow> \<not> py_isspace c"

section \<open>GerritClient: the ssh command\<close>

record gerrit_client =
  gerrit_user :: "string option"
  max_reviews :: int
  blacklist_reviews :: "string list"
  repository :: string
  project :: "string option"
  port :: "string option"
  id_filepath :: "string option"
  disable_host_key_check :: bool
  gversion :: version

text \<open>\<open>GerritClient.__init__\<close>: the prefix \<open>self.gerrit_cmd\<close> of every command.\<close>

definition ssh_opts :: "gerrit_client \<Rightarrow> string" where
  "ssh_opts c =
     (if disable_host_key_check c then ''-o StrictHostKeyChecking=no '' else []) @
     (if truthy (id_filepath c) then ''-i '' @ fmt_s (id_filepath c) @ '' '' else [])"

definition gerrit_cmd :: "gerrit_client \<Rightarrow> string" where
  "gerrit_cmd c =
     (if truthy (port c) then
        ''ssh '' @ ssh_opts c @ '' -p '' @ fmt_s (port c) @ '' '' @ fmt_s (gerrit_user c) @ ''@'' @ repository c
      else
        ''ssh '' @ ssh_opts c @ '' '' @ fmt_s (gerrit_user c) @ ''@'' @ repository c)
     @ '' gerrit ''"

text \<open>The command of the \<open>version\<close> property.\<close>

definition version_cmd :: "gerrit_client \<Rightarrow> string" where
  "version_cmd c = gerrit_cmd c @ '' version ''"

text \<open>
  \<open>GerritClient._get_gerrit_cmd\<close>. The last step appends the resume token: \<open>--start=\<close>
  with an offset from version 2.9 on and for 3.x, \<open>resume_sortkey:\<close> otherwise (where
  concatenating an integer to a string raises \<open>TypeError\<close>).
\<close>

definition cursor_arg :: "version \<Rightarrow> cursor option \<Rightarrow> error + string" where
  "cursor_arg gerrit_version last_item =
     (case last_item of
        None \<Rightarrow> Inr []
      | Some li \<Rightarrow>
          (if (fst gerrit_version = 2 \<and> snd gerrit_version \<ge> 9) \<or> fst gerrit_version = 3 then
             Inr ('' --start='' @ (case li of Offset n \<Rightarrow> str_int n | SortKey k \<Rightarrow> k))
           else
             (case li of
                SortKey k \<Rightarrow> Inr ('' resume_sortkey:'' @ k)
              | Offset n \<Rightarrow> Inl TypeError)))"

definition query_args :: "gerrit_client \<Rightarrow> string option \<Rightarrow> string" where
  "query_args c filt =
     '' query '' @
     (if truthy (project c) then ''project:'' @ fmt_s (project c) @ '' '' else []) @
     ''limit:'' @ str_int (max_reviews c) @
     (if \<not> truthy filt then
        '' '' @ [CHR 0x27] @ ''(status:open OR status:closed)'' @
        (if blacklist_reviews c \<noteq> [] then
           '' AND NOT ('' @ join '' OR '' (blacklist_reviews c) @ '')''
         else []) @
        [CHR 0x27]
      else
        (if blacklist_reviews c \<noteq> [] then
           '' '' @ [CHR 0x27] @ fmt_s filt @ '' AND NOT ('' @
           join '','' (blacklist_reviews c) @ '')'' @ [CHR 0x27]
         else '' '' @ fmt_s filt @ '' '')) @
     '' --all-approvals --comments --format=JSON''"

definition get_gerrit_cmd :: "gerrit_client \<Rightarrow> cursor option \<Rightarrow> string option \<Rightarrow> error + string" where
  "get_gerrit_cmd c last_item filt =
     (if truthy filt \<and> filt \<noteq> Some ''status:open'' \<and> filt \<noteq> Some ''status:closed'' then
        Inl (BackendError (''Filter not supported in gerrit '' @ fmt_s filt))
      else
        (case cursor_arg (gversion c) last_item of
           Inl e \<Rightarrow> Inl e
         | Inr arg \<Rightarrow> Inr (gerrit_cmd c @ query_args c filt @ arg)))"

section \<open>GerritClient.sanitize_for_archive\<close>

text \<open>
  \<open>re.sub(r" \S*@", ' xxxxx@', cmd)\<close>: scanning from the left, a space followed by a
  run of non-space characters that holds an \<open>@\<close> is a match up to the last \<open>@\<close> of the
  run (the star is greedy); the match is replaced and the scan goes on behind it. The
  rest of the run holds no space, so the next match starts behind the run.
\<close>

definition after_last_at :: "string \<Rightarrow> string" where
  "after_last_at run = rev (takeWhile (\<lambda>x. x \<noteq> CHR ''@'') (rev run))"

function sanitize_for_archive :: "string \<Rightarrow> string" where
  "sanitize_for_archive [] = []"
| "sanitize_for_archive (c # cs) =
     (if c = CHR '' '' \<and> CHR ''@'' \<in> set (takeWhile non_space cs) then
        '' xxxxx@'' @ after_last_at (takeWhile non_space cs) @
        sanitize_for_archive (dropWhile non_space cs)
      else c # sanitize_for_archive cs)"
  by pat_completeness auto
termination
  by (relation "measure length") (auto simp: length_dropWhile_le less_Suc_eq_le)

section \<open>Gerrit: the fetch loops\<close>

text \<open>
  A fetch is a generator. Its model returns the list of the reviews it yields and how it
  ended: the loop left (\<open>Completed\<close>), an exception (\<open>Raised\<close>), or \<open>Starved\<close>.
  The server is the sequence of its replies: one list of pages per query filter, read
  from the front, a page being the parsed reviews of one reply or the exception the
  transport raised for it. A finite list describes a finite part of a run; a fetch that
  asks for a reply behind the end of the list is \<open>Starved\<close>, and what it yielded up to
  that request is reported.
\<close>

datatype status = Completed | Raised error | Starved

type_synonym page = "error + review list"

definition page_items :: "page \<Rightarrow> review list" where
  "page_items p = (case p of Inl e \<Rightarrow> [] | Inr rs \<Rightarrow> rs)"

text \<open>
  \<open>Gerrit._get_reviews\<close>: build the command (which may raise), run it, parse the reply
  (\<open>parse_reviews\<close> keeps the JSON objects with a \<open>project\<close> key: the reviews of the page).
\<close>

definition get_reviews ::
  "gerrit_client \<Rightarrow> cursor option \<Rightarrow> string option \<Rightarrow> page list \<Rightarrow> status + (review list \<times> page list)" where
  "get_reviews c li filt ps =
     (case get_gerrit_cmd c li filt of
        Inl e \<Rightarrow> Inl (Raised e)
      | Inr cmd \<Rightarrow>
          (case ps of
             [] \<Rightarrow> Inl Starved
           | Inl e # rest \<Rightarrow> Inl (Raised e)
           | Inr rs # rest \<Rightarrow> Inr (rs, rest)))"

text \<open>One turn of a loop: it ends, it yields and ends, or it yields and goes on.\<close>

datatype 's step = Halt status | Last review status | Next review 's

subsection \<open>Gerrit._fetch_gerrit\<close>

record fetch_state =
  reviews :: "review list"
  last_nreviews :: nat
  last_item :: "cursor option"
  pages :: "page list"

text \<open>\<open>try: last_item += 1 except Exception: pass\<close>\<close>

definition incr_item :: "cursor option \<Rightarrow> cursor option" where
  "incr_item li = (case li of Some (Offset n) \<Rightarrow> Some (Offset (n + 1)) | _ \<Rightarrow> li)"

definition gerrit_step :: "gerrit_client \<Rightarrow> real \<Rightarrow> fetch_state \<Rightarrow> fetch_state step" where
  "gerrit_step c from_ut s =
     (case reviews s of
        [] \<Rightarrow> Halt Completed
      | review # rest \<Rightarrow>
          (if real_of_int (lastUpdated review) \<le> from_ut then Halt Completed
           else if rest = [] \<and> int (last_nreviews s) \<ge> max_reviews c then
             (case next_retrieve_group_item (gversion c) (incr_item (last_item s)) (Some review) of
                Inl e \<Rightarrow> Last review (Raised e)
              | Inr li \<Rightarrow>
                  (case get_reviews c li None (pages s) of
                     Inl st \<Rightarrow> Last review st
                   | Inr (rs, ps) \<Rightarrow>
                       Next review \<lparr>reviews = rs, last_nreviews = length rs, last_item = li, pages = ps\<rparr>))
           else Next review (s\<lparr>reviews := rest, last_item := incr_item (last_item s)\<rparr>)))"

definition pages_size :: "page list \<Rightarrow> nat" where
  "pages_size ps = sum_list (map (\<lambda>p. Suc (length (page_items p))) ps)"

definition fetch_size :: "fetch_state \<Rightarrow> nat" where
  "fetch_size s = length (reviews s) + pages_size (pages s)"

lemma get_reviews_size:
  "get_reviews c li filt ps = Inr (rs, rest) \<Longrightarrow> pages_size ps = Suc (length rs + pages_size rest)"
  by (auto simp: get_reviews_def pages_size_def page_items_def
      split: sum.splits list.splits)

lemma gerrit_step_size:
  "gerrit_step c from_ut s = Next r s' \<Longrightarrow> fetch_size s' < fetch_size s"
  by (auto simp: gerrit_step_def fetch_size_def dest!: get_reviews_size
      split: list.splits if_splits sum.splits prod.splits)

function gerrit_run :: "gerrit_client \<Rightarrow> real \<Rightarrow> fetch_state \<Rightarrow> review list \<times> status" where
  "gerrit_run c from_ut s =
     (case gerrit_step c from_ut s of
        Halt st \<Rightarrow> ([], st)
      | Last r st \<Rightarrow> ([r], st)
      | Next r s' \<Rightarrow> (case gerrit_run c from_ut s' of (ys, st) \<Rightarrow> (r # ys, st)))"
  by pat_completeness auto
termination
  by (relation "measure (\<lambda>(c, from_ut, s). fetch_size s)") (auto dest: gerrit_step_size)

declare gerrit_run.simps [simp del]

definition fetch_gerrit :: "gerrit_client \<Rightarrow> real \<Rightarrow> page list \<Rightarrow> review list \<times> status" where
  "fetch_gerrit c from_ut ps =
     (case next_retrieve_group_item (gversion c) None None of
        Inl e \<Rightarrow> ([], Raised e)
      | Inr li \<Rightarrow>
          (case get_reviews c li None ps of
             Inl st \<Rightarrow> ([], st)
           | Inr (rs, rest) \<Rightarrow>
               gerrit_run c from_ut
                 \<lparr>reviews = rs, last_nreviews = length rs, last_item = li, pages = rest\<rparr>))"

subsection \<open>Gerrit._fetch_gerrit28\<close>

record fetch28_state =
  reviews_open :: "review list"
  reviews_closed :: "review list"
  last_nreviews_open :: nat
  last_nreviews_closed :: nat
  last_item_open :: "cursor option"
  last_item_closed :: "cursor option"
  review_open :: "review option"
  review_closed :: "review option"
  pages_open :: "page list"
  pages_closed :: "page list"

text \<open>
  The head of the loop body: which queue gives its front. \<open>review_open\<close> and
  \<open>review_closed\<close> keep the review popped last from each queue (\<open>None\<close>: the variable
  is not bound yet).
\<close>

definition pop28 :: "fetch28_state \<Rightarrow> (review \<times> fetch28_state) option" where
  "pop28 s =
     (case (reviews_open s, reviews_closed s) of
        ([], []) \<Rightarrow> None
      | (ro # os, rc # cs) \<Rightarrow>
          (if lastUpdated ro \<ge> lastUpdated rc
           then Some (ro, s\<lparr>reviews_open := os, review_open := Some ro\<rparr>)
           else Some (rc, s\<lparr>reviews_closed := cs, review_closed := Some rc\<rparr>))
      | ([], rc # cs) \<Rightarrow> Some (rc, s\<lparr>reviews_closed := cs, review_closed := Some rc\<rparr>)
      | (ro # os, []) \<Rightarrow> Some (ro, s\<lparr>reviews_open := os, review_open := Some ro\<rparr>))"

definition refill_open :: "gerrit_client \<Rightarrow> fetch28_state \<Rightarrow> status + fetch28_state" where
  "refill_open c s =
     (if reviews_open s = [] \<and> int (last_nreviews_open s) \<ge> max_reviews c then
        (case review_open s of
           None \<Rightarrow> Inl (Raised UnboundLocalError)
         | Some entry \<Rightarrow>
             (case next_retrieve_group_item (gversion c) (last_item_open s) (Some entry) of
                Inl e \<Rightarrow> Inl (Raised e)
              | Inr li \<Rightarrow>
                  (case get_reviews c li (Some ''status:open'') (pages_open s) of
                     Inl st \<Rightarrow> Inl st
                   | Inr (rs, ps) \<Rightarrow>
                       Inr (s\<lparr>last_item_open := li, reviews_open := rs,
                              last_nreviews_open := length rs, pages_open := ps\<rparr>))))
      else Inr s)"

definition refill_closed :: "gerrit_client \<Rightarrow> fetch28_state \<Rightarrow> status + fetch28_state" where
  "refill_closed c s =
     (if reviews_closed s = [] \<and> int (last_nreviews_closed s) \<ge> max_reviews c then
        (case review_closed s of
           None \<Rightarrow> Inl (Raised UnboundLocalError)
         | Some entry \<Rightarrow>
             (case next_retrieve_group_item (gversion c) (last_item_closed s) (Some entry) of
                Inl e \<Rightarrow> Inl (Raised e)
              | Inr li \<Rightarrow>
                  (case get_reviews c li (Some ''status:closed'') (pages_closed s) of
                     Inl st \<Rightarrow> Inl st
                   | Inr (rs, ps) \<Rightarrow>
                       Inr (s\<lparr>last_item_closed := li, reviews_closed := rs,
                              last_nreviews_closed := length rs, pages_closed := ps\<rparr>))))
      else Inr s)"

definition gerrit28_step :: "gerrit_client \<Rightarrow> real \<Rightarrow> fetch28_state \<Rightarrow> fetch28_state step" where
  "gerrit28_step c from_ut s =
     (case pop28 s of
        None \<Rightarrow> Halt Completed
      | Some (review, s1) \<Rightarrow>
          (if real_of_int (lastUpdated review) \<le> from_ut then Halt Completed
           else
             (case refill_open c s1 of
                Inl st \<Rightarrow> Last review st
              | Inr s2 \<Rightarrow>
                  (case refill_closed c s2 of
                     Inl st \<Rightarrow> Last review st
                   | Inr s3 \<Rightarrow> Next review s3))))"

definition fetch28_size :: "fetch28_state \<Rightarrow> nat" where
  "fetch28_size s =
     length (reviews_open s) + pages_size (pages_open s) +
     (length (reviews_closed s) + pages_size (pages_closed s))"

lemma pop28_size: "pop28 s = Some (r, s1) \<Longrightarrow> fetch28_size s1 < fetch28_size s"
  by (auto simp: pop28_def fetch28_size_def split: list.splits if_splits)

lemma refill_open_size: "refill_open c s = Inr s' \<Longrightarrow> fetch28_size s' \<le> fetch28_size s"
  by (auto simp: refill_open_def fetch28_size_def dest!: get_reviews_size
      split: if_splits option.splits sum.splits prod.splits)

lemma refill_closed_size: "refill_closed c s = Inr s' \<Longrightarrow> fetch28_size s' \<le> fetch28_size s"
  by (auto simp: refill_closed_def fetch28_size_def dest!: get_reviews_size
      split: if_splits option.splits sum.splits prod.splits)

lemma gerrit28_step_size:
  assumes "gerrit28_step c from_ut s = Next r s'"
  shows "fetch28_size s' < fetch28_size s"
proof -
  from assms obtain s1 s2 where p: "pop28 s = Some (r, s1)"
    and o: "refill_open c s1 = Inr s2" and cl: "refill_closed c s2 = Inr s'"
    by (auto simp: gerrit28_step_def split: option.splits if_splits sum.splits)
  from pop28_size [OF p] refill_open_size [OF o] refill_closed_size [OF cl]
  show ?thesis by linarith
qed

function gerrit28_run :: "gerrit_client \<Rightarrow> real \<Rightarrow> fetch28_state \<Rightarrow> review list \<times> status" where
  "gerrit28_run c from_ut s =
     (case gerrit28_step c from_ut s of
        Halt st \<Rightarrow> ([], st)
      | Last r st \<Rightarrow> ([r], st)
      | Next r s' \<Rightarrow> (case gerrit28_run c from_ut s' of (ys, st) \<Rightarrow> (r # ys, st)))"
  by pat_completeness auto
termination
  by (relation "measure (\<lambda>(c, from_ut, s). fetch28_size s)") (auto dest: gerrit28_step_size)

declare gerrit28_run.simps [simp del]

definition fetch_gerrit28 ::
  "gerrit_client \<Rightarrow> real \<Rightarrow> page list \<Rightarrow> page list \<Rightarrow> review list \<times> status" where
  "fetch_gerrit28 c from_ut pso psc =
     (case next_retrieve_group_item (gversion c) None None of
        Inl e \<Rightarrow> ([], Raised e)
      | Inr lio \<Rightarrow>
          (case next_retrieve_group_item (gversion c) None None of
             Inl e \<Rightarrow> ([], Raised e)
           | Inr lic \<Rightarrow>
               (case get_reviews c lio (Some ''status:open'') pso of
                  Inl st \<Rightarrow> ([], st)
                | Inr (ro, resto) \<Rightarrow>
                    (case get_reviews c lic (Some ''status:closed'') psc of
                       Inl st \<Rightarrow> ([], st)
                     | Inr (rc, restc) \<Rightarrow>
                         gerrit28_run c from_ut
                           \<lparr>reviews_open = ro, reviews_closed = rc,
                            last_nreviews_open = length ro, last_nreviews_closed = length rc,
                            last_item_open = lio, last_item_closed = lic,
                            review_open = None, review_closed = None,
                            pages_open = resto, pages_closed = restc\<rparr>))))"

subsection \<open>Gerrit.fetch_items\<close>

text \<open>
  The replies of the server, by the filter of the query: \<open>None\<close> for the query over
  open and closed reviews together.
\<close>

definition fetch_items :: "gerrit_client \<Rightarrow> real \<Rightarrow> (string option \<Rightarrow> page list) \<Rightarrow> review list \<times> status" where
  "fetch_items c from_ut replies =
     (if fst (gversion c) = 2 \<and> snd (gversion c) = 8
      then fetch_gerrit28 c from_ut (replies (Some ''status:open'')) (replies (Some ''status:closed''))
      else fetch_gerrit c from_ut (replies None))"

subsection \<open>Gerrit.__init__ and Gerrit._init_client\<close>

text \<open>
  \<open>Gerrit.__init__\<close> keeps \<open>max(1, max_reviews)\<close>, and \<open>_init_client\<close> hands that value
  to the client: the client of a backend.
\<close>

definition backend_client :: "gerrit_client \<Rightarrow> gerrit_client" where
  "backend_client c = c\<lparr>max_reviews := max 1 (max_reviews c)\<rparr>"

section \<open>Meetup: data and remote interface\<close>

text \<open>
  An aware \<open>datetime\<close> denotes an instant with a resolution of one microsecond: an
  integer number of microseconds since the epoch. \<open>timestamp()\<close> values are reals.
  The nodes of comments and tickets are kept as opaque texts.
\<close>

type_synonym instant = int

type_synonym node = string

record page_info =
  hasNextPage :: bool
  endCursor :: string

text \<open>An edge of the events listing (\<open>QUERY_EVENT_DATE\<close>): the id and the date of an event.\<close>

record event_ref =
  ref_id :: string
  ref_dateTime :: string

record events_page =
  event_edges :: "event_ref list"
  event_pageInfo :: page_info

record comments_node =
  count :: int
  comment_edges :: "node list"

record tickets_node =
  ticket_edges :: "node list"
  ticket_pageInfo :: page_info

text \<open>
  A full event (\<open>QUERY_EVENT_FULL\<close>). \<open>comments\<close>, \<open>rsvps\<close> and \<open>fetched_on\<close> are the keys
  that \<open>Meetup.fetch_items\<close> adds; \<open>None\<close> is a key that is not set.
\<close>

record event =
  event_id :: string
  dateTime :: string
  comments :: "node list option"
  rsvps :: "node list option"
  fetched_on :: "real option"

text \<open>
  What the client calls: \<open>datetime.strptime\<close> with the format of the listing (it raises
  on a text it cannot read), and the replies of the server to the query for one event,
  for a page of its comments (offset, limit) and for a page of its tickets (first, after).
\<close>

record meetup_api =
  strptime :: "string \<Rightarrow> error + instant"
  event_full :: "string \<Rightarrow> error + event"
  event_comments :: "string \<Rightarrow> int \<Rightarrow> int \<Rightarrow> error + comments_node"
  event_tickets :: "string \<Rightarrow> int \<Rightarrow> string \<Rightarrow> error + tickets_node"

record meetup_client =
  api_token :: string
  max_items :: int
  sleep_for_rate :: bool
  min_rate_to_sleep :: int
  from_archive :: bool
  rate_limit :: "int option"
  rate_limit_reset_ts :: "int option"

definition VEVENT_TYPES :: "string list" where
  "VEVENT_TYPES = [''pastEvents'', ''upcomingEvents'']"

text \<open>\<open>cursor if cursor == 'null' else '"{}"'.format(cursor)\<close>\<close>

definition fmt_cursor :: "string \<Rightarrow> string" where
  "fmt_cursor cursor = (if cursor = ''null'' then cursor else [CHR 0x22] @ cursor @ [CHR 0x22])"

section \<open>MeetupClient.events\<close>

text \<open>
  The \<open>for\<close> loop over the edges of one page: the events it yields, and the exception
  that ended it, if any.
\<close>

fun page_events :: "meetup_api \<Rightarrow> instant \<Rightarrow> event_ref list \<Rightarrow> event list \<times> error option" where
  "page_events api from_date [] = ([], None)"
| "page_events api from_date (n # ns) =
     (case strptime api (ref_dateTime n) of
        Inl e \<Rightarrow> ([], Some e)
      | Inr date \<Rightarrow>
          (if date > from_date then
             (case event_full api (ref_id n) of
                Inl e \<Rightarrow> ([], Some e)
              | Inr ev \<Rightarrow> (case page_events api from_date ns of (ys, r) \<Rightarrow> (ev # ys, r)))
           else page_events api from_date ns))"

text \<open>
  The \<open>while True\<close> loop. The replies to the listing queries are a list read from the
  front, as for Gerrit: a reply is an exception, a reply without the group
  (\<open>groupByUrlname\<close> is null) or a page.
\<close>

type_synonym listing = "error + events_page option"

fun events_walk ::
  "meetup_api \<Rightarrow> string \<Rightarrow> instant \<Rightarrow> nat \<Rightarrow> string \<Rightarrow> listing list \<Rightarrow> event list \<times> status" where
  "events_walk api grp from_date event_idx cursor [] = ([], Starved)"
| "events_walk api grp from_date event_idx cursor (reply # replies) =
     (case reply of
        Inl e \<Rightarrow> ([], Raised e)
      | Inr None \<Rightarrow> ([], Raised (GroupError (''Can't get meetup group: '' @ grp)))
      | Inr (Some events_page) \<Rightarrow>
          (case page_events api from_date (event_edges events_page) of
             (ys, Some e) \<Rightarrow> (ys, Raised e)
           | (ys, None) \<Rightarrow>
               (if hasNextPage (event_pageInfo events_page) then
                  (case events_walk api grp from_date event_idx
                          (endCursor (event_pageInfo events_page)) replies of
                     (zs, st) \<Rightarrow> (ys @ zs, st))
                else if int event_idx < int (length VEVENT_TYPES) - 1 then
                  (case events_walk api grp from_date (event_idx + 1) ''null'' replies of
                     (zs, st) \<Rightarrow> (ys @ zs, st))
                else (ys, Completed))))"

definition events ::
  "meetup_api \<Rightarrow> string \<Rightarrow> instant \<Rightarrow> listing list \<Rightarrow> event list \<times> status" where
  "events api grp from_date replies = events_walk api grp from_date 0 ''null'' replies"

section \<open>MeetupClient.comments and MeetupClient.rsvps\<close>

text \<open>
  Both loops go on for as long as the server tells them to, so they take fuel: one unit
  for each request, and \<open>Starved\<close> for a walk that is not over after that many requests.
  The server answers a request by its arguments. The result is the list of the pages
  yielded.
\<close>

fun comments_walk ::
  "nat \<Rightarrow> (int \<Rightarrow> int \<Rightarrow> error + comments_node) \<Rightarrow> int \<Rightarrow> int \<Rightarrow> node list list \<times> status" where
  "comments_walk 0 srv limit ncomments = ([], Starved)"
| "comments_walk (Suc fuel) srv limit ncomments =
     (case srv ncomments limit of
        Inl e \<Rightarrow> ([], Raised e)
      | Inr comments_node \<Rightarrow>
          (if ncomments + limit \<ge> count comments_node then ([comment_edges comments_node], Completed)
           else
             (case comments_walk fuel srv limit (ncomments + limit) of
                (ps, st) \<Rightarrow> (comment_edges comments_node # ps, st))))"

definition comments_pages ::
  "nat \<Rightarrow> meetup_api \<Rightarrow> meetup_client \<Rightarrow> string \<Rightarrow> node list list \<times> status" where
  "comments_pages fuel api c eid = comments_walk fuel (event_comments api eid) (max_items c) 0"

fun rsvps_walk ::
  "nat \<Rightarrow> (int \<Rightarrow> string \<Rightarrow> error + tickets_node) \<Rightarrow> int \<Rightarrow> string \<Rightarrow> node list list \<times> status" where
  "rsvps_walk 0 srv limit cursor = ([], Starved)"
| "rsvps_walk (Suc fuel) srv limit cursor =
     (case srv limit (fmt_cursor cursor) of
        Inl e \<Rightarrow> ([], Raised e)
      | Inr tickets_node \<Rightarrow>
          (if hasNextPage (ticket_pageInfo tickets_node) then
             (case rsvps_walk fuel srv limit (endCursor (ticket_pageInfo tickets_node)) of
                (ps, st) \<Rightarrow> (ticket_edges tickets_node # ps, st))
           else ([ticket_edges tickets_node], Completed)))"

definition rsvps_pages ::
  "nat \<Rightarrow> meetup_api \<Rightarrow> meetup_client \<Rightarrow> string \<Rightarrow> node list list \<times> status" where
  "rsvps_pages fuel api c eid = rsvps_walk fuel (event_tickets api eid) (max_items c) ''null''"

section \<open>Meetup.fetch_items and Meetup.metadata_updated_on\<close>

text \<open>
  \<open>__fetch_and_parse_comments\<close> and \<open>__fetch_and_parse_rsvps\<close> collect the nodes of all
  pages; a walk that does not end well ends the fetch.
\<close>

definition fetch_and_parse_comments ::
  "nat \<Rightarrow> meetup_api \<Rightarrow> meetup_client \<Rightarrow> string \<Rightarrow> status + node list" where
  "fetch_and_parse_comments fuel api c eid =
     (case comments_pages fuel api c eid of
        (ps, Completed) \<Rightarrow> Inr (concat ps)
      | (ps, st) \<Rightarrow> Inl st)"

definition fetch_and_parse_rsvps ::
  "nat \<Rightarrow> meetup_api \<Rightarrow> meetup_client \<Rightarrow> string \<Rightarrow> status + node list" where
  "fetch_and_parse_rsvps fuel api c eid =
     (case rsvps_pages fuel api c eid of
        (ps, Completed) \<Rightarrow> Inr (concat ps)
      | (ps, st) \<Rightarrow> Inl st)"

text \<open>
  The body of the \<open>for\<close> loop of \<open>fetch_items\<close> over the events that the walk yields.
  \<open>clock k\<close> is the value of \<open>datetime_utcnow().timestamp()\<close> read for item \<open>k\<close>; \<open>st\<close> is how
  the walk ended.
\<close>

fun fetch_events ::
  "nat \<Rightarrow> meetup_api \<Rightarrow> meetup_client \<Rightarrow> (nat \<Rightarrow> real) \<Rightarrow> nat \<Rightarrow> event list \<Rightarrow> status \<Rightarrow>
   event list \<times> status" where
  "fetch_events fuel api c clock k [] st = ([], st)"
| "fetch_events fuel api c clock k (ev # evs) st =
     (case fetch_and_parse_comments fuel api c (event_id ev) of
        Inl s \<Rightarrow> ([], s)
      | Inr cs \<Rightarrow>
          (case fetch_and_parse_rsvps fuel api c (event_id ev) of
             Inl s \<Rightarrow> ([], s)
           | Inr rs \<Rightarrow>
               (case fetch_events fuel api c clock (Suc k) evs st of
                  (ys, s) \<Rightarrow>
                    (ev\<lparr>comments := Some cs, rsvps := Some rs, fetched_on := Some (clock k)\<rparr> # ys, s))))"

definition meetup_fetch_items ::
  "nat \<Rightarrow> meetup_api \<Rightarrow> meetup_client \<Rightarrow> (nat \<Rightarrow> real) \<Rightarrow> string \<Rightarrow> instant \<Rightarrow> listing list \<Rightarrow>
   event list \<times> status" where
  "meetup_fetch_items fuel api c clock grp from_date replies =
     (case events api grp from_date replies of
        (evs, st) \<Rightarrow> fetch_events fuel api c clock 0 evs st)"

definition metadata_updated_on :: "event \<Rightarrow> error + real" where
  "metadata_updated_on item =
     (case fetched_on item of
        None \<Rightarrow> Inl (KeyError ''fetched_on'')
      | Some t \<Rightarrow> Inr t)"

section \<open>GerritClient: running a command\<close>

definition MAX_RETRIES :: nat where
  "MAX_RETRIES = 3"

definition RETRY_WAIT :: nat where
  "RETRY_WAIT = 60"

text \<open>
  The \<open>while\<close> loop of \<open>__execute_from_remote\<close>. \<open>check_output k\<close> is what the
  subprocess does when it is run with \<open>retries = k\<close>: its output, or \<open>None\<close> for
  \<open>CalledProcessError\<close>. \<open>slept\<close> collects the arguments of \<open>time.sleep\<close>, in seconds.
\<close>

function retry_loop :: "(nat \<Rightarrow> string option) \<Rightarrow> nat \<Rightarrow> nat list \<Rightarrow> string option \<times> nat list" where
  "retry_loop check_output retries slept =
     (if retries < MAX_RETRIES then
        (case check_output retries of
           Some result \<Rightarrow> (Some result, slept)
         | None \<Rightarrow> retry_loop check_output (retries + 1) (slept @ [RETRY_WAIT * retries]))
      else (None, slept))"
  by pat_completeness auto
termination
  by (relation "measure (\<lambda>(f, retries, slept). MAX_RETRIES - retries)") auto

declare retry_loop.simps [simp del]

text \<open>
  What the archive holds for a command: the bytes of the result, or the \<open>RuntimeError\<close>
  object with its message.
\<close>

datatype payload = Data string | Failed string

text \<open>
  Modelled from the spec: the \<open>Archive\<close> class (\<open>store\<close>, \<open>retrieve\<close>) is not among the
  sources. The spec makes it a key/value store in which retrieval after a store gives
  the stored payload, the retrieval of an unknown key is an error, and a stored error
  can be told from a stored result.
\<close>

type_synonym archive = "string \<rightharpoonup> payload"

definition store :: "archive \<Rightarrow> string \<Rightarrow> payload \<Rightarrow> archive" where
  "store a key data = a(key \<mapsto> data)"

definition retrieve :: "archive \<Rightarrow> string \<Rightarrow> error + payload" where
  "retrieve a key = (case a key of None \<Rightarrow> Inl (ArchiveError key) | Some data \<Rightarrow> Inr data)"

text \<open>\<open>if isinstance(result, RuntimeError): raise result\<close>, else \<open>return result\<close>.\<close>

definition raise_or_return :: "payload \<Rightarrow> error + string" where
  "raise_or_return p = (case p of Failed msg \<Rightarrow> Inl (RuntimeError msg) | Data d \<Rightarrow> Inr d)"

text \<open>
  \<open>__execute_from_remote\<close>: the result or the exception, the sleeps, and the archive
  afterwards (\<open>None\<close>: no archive is configured).
\<close>

definition execute_from_remote ::
  "archive option \<Rightarrow> (nat \<Rightarrow> string option) \<Rightarrow> string \<Rightarrow> (error + string) \<times> nat list \<times> archive option" where
  "execute_from_remote arch check_output cmd =
     (case retry_loop check_output 0 [] of
        (r, slept) \<Rightarrow>
          (let result =
                 (case r of
                    None \<Rightarrow> Failed (cmd @ '' failed '' @ str_int (int MAX_RETRIES) @ '' times. Giving up!'')
                  | Some out \<Rightarrow> Data out)
           in (raise_or_return result, slept,
               (case arch of
                  None \<Rightarrow> None
                | Some a \<Rightarrow> Some (store a (sanitize_for_archive cmd) result)))))"

definition execute_from_archive :: "archive option \<Rightarrow> string \<Rightarrow> error + string" where
  "execute_from_archive arch cmd =
     (case arch of
        None \<Rightarrow> Inl AttributeError
      | Some a \<Rightarrow>
          (case retrieve a (sanitize_for_archive cmd) of
             Inl e \<Rightarrow> Inl e
           | Inr response \<Rightarrow> raise_or_return response))"

text \<open>\<open>__execute\<close>: replay or live.\<close>

definition execute ::
  "bool \<Rightarrow> archive option \<Rightarrow> (nat \<Rightarrow> string option) \<Rightarrow> string \<Rightarrow> (error + string) \<times> nat list \<times> archive option" where
  "execute replay arch check_output cmd =
     (if replay then (execute_from_archive arch cmd, [], arch)
      else execute_from_remote arch check_output cmd)"

section \<open>MeetupClient: rate limit and archive key\<close>

text \<open>
  \<open>calculate_time_to_reset\<close>: comparing \<open>None\<close> with 0 raises \<open>TypeError\<close>.
\<close>

definition calculate_time_to_reset :: "meetup_client \<Rightarrow> error + int" where
  "calculate_time_to_reset c =
     (case rate_limit_reset_ts c of
        None \<Rightarrow> Inl TypeError
      | Some ts \<Rightarrow> Inr (if ts < 0 then 0 else ts))"

text \<open>
  Modelled from the spec: \<open>RateLimitHandler.sleep_for_rate_limit\<close> is not among the
  sources. The spec: if the governor is configured to throttle and the remaining quota is
  at or below the configured floor, it sleeps for the seconds that the client's
  \<open>calculate_time_to_reset\<close> gives and then clears the rate state; if throttling is
  disabled, or the quota is unknown, it never sleeps. The result is the number of seconds
  slept and the client afterwards.
\<close>

definition sleep_for_rate_limit :: "meetup_client \<Rightarrow> error + (int \<times> meetup_client)" where
  "sleep_for_rate_limit c =
     (if sleep_for_rate c \<and> (case rate_limit c of None \<Rightarrow> False | Some q \<Rightarrow> q \<le> min_rate_to_sleep c) then
        (case calculate_time_to_reset c of
           Inl e \<Rightarrow> Inl e
         | Inr seconds \<Rightarrow> Inr (seconds, c\<lparr>rate_limit := None, rate_limit_reset_ts := None\<rparr>))
      else Inr (0, c))"

text \<open>The start of \<open>MeetupClient._fetch\<close>: \<open>if not self.from_archive: self.sleep_for_rate_limit()\<close>.\<close>

definition pre_request_wait :: "meetup_client \<Rightarrow> error + (int \<times> meetup_client)" where
  "pre_request_wait c = (if \<not> from_archive c then sleep_for_rate_limit c else Inr (0, c))"

definition PKEY_OAUTH2 :: string where
  "PKEY_OAUTH2 = ''Authorization''"

type_synonym headers = "string \<rightharpoonup> string"

text \<open>The headers that \<open>_fetch\<close> sends.\<close>

definition fetch_headers :: "meetup_client \<Rightarrow> headers" where
  "fetch_headers c =
     [PKEY_OAUTH2 \<mapsto> ''Bearer '' @ api_token c, ''Content-Type'' \<mapsto> ''application/json'']"

text \<open>\<open>MeetupClient.sanitize_for_archive\<close>\<close>

definition meetup_sanitize_for_archive ::
  "string \<Rightarrow> headers \<Rightarrow> string \<Rightarrow> string \<times> headers \<times> string" where
  "meetup_sanitize_for_archive url hs payload =
     (url, (if hs PKEY_OAUTH2 \<noteq> None then hs(PKEY_OAUTH2 := None) else hs), payload)"

section \<open>Notions used by the properties\<close>

text \<open>
  What a partition can still give: its queue, then, if its last page was full, the
  reviews of its pages that are not read yet. \<open>descending\<close>: non-increasing in
  \<open>lastUpdated\<close>. \<open>refilled\<close>: no queue is empty after a full page, which is the state
  of the loop whenever it pops.
\<close>

definition pending_open :: "gerrit_client \<Rightarrow> fetch28_state \<Rightarrow> review list" where
  "pending_open c s =
     reviews_open s @
     (if int (last_nreviews_open s) \<ge> max_reviews c then concat (map page_items (pages_open s)) else [])"

definition pending_closed :: "gerrit_client \<Rightarrow> fetch28_state \<Rightarrow> review list" where
  "pending_closed c s =
     reviews_closed s @
     (if int (last_nreviews_closed s) \<ge> max_reviews c then concat (map page_items (pages_closed s)) else [])"

definition descending :: "review list \<Rightarrow> bool" where
  "descending rs \<longleftrightarrow> sorted_wrt (\<lambda>x y. lastUpdated x \<ge> lastUpdated y) rs"

definition refilled :: "gerrit_client \<Rightarrow> fetch28_state \<Rightarrow> bool" where
  "refilled c s \<longleftrightarrow>
     (reviews_open s = [] \<longrightarrow> int (last_nreviews_open s) < max_reviews c) \<and>
     (reviews_closed s = [] \<longrightarrow> int (last_nreviews_closed s) < max_reviews c)"

text \<open>
  For Meetup: the edge of the listing that makes the walk yield \<open>ev\<close>. Its date is read
  and lies after \<open>from_date\<close>, and \<open>ev\<close> is the reply to the query for its id.
\<close>

definition yields_for :: "meetup_api \<Rightarrow> instant \<Rightarrow> event_ref \<Rightarrow> event \<Rightarrow> bool" where
  "yields_for api from_date n ev \<longleftrightarrow>
     (case strptime api (ref_dateTime n) of Inl e \<Rightarrow> False | Inr date \<Rightarrow> from_date < date) \<and>
     event_full api (ref_id n) = Inr ev"

definition listed :: "listing list \<Rightarrow> event_ref list" where
  "listed replies =
     concat (map (\<lambda>reply. case reply of Inr (Some events_page) \<Rightarrow> event_edges events_page | _ \<Rightarrow> []) replies)"

text \<open>The command prefix: a part before the user, the user, a part behind it.\<close>

definition cmd_head :: "gerrit_client \<Rightarrow> string" where
  "cmd_head c =
     (if truthy (port c) then ''ssh '' @ ssh_opts c @ '' -p '' @ fmt_s (port c)
      else ''ssh '' @ ssh_opts c)"

text \<open>
  The server of the claim: asked for a page of comments at an offset within a collection
  of \<open>cnt\<close> edges, it reports \<open>cnt\<close> and gives the next \<open>min(limit, cnt - offset)\<close> edges.
\<close>

definition serves :: "(int \<Rightarrow> int \<Rightarrow> error + comments_node) \<Rightarrow> int \<Rightarrow> int \<Rightarrow> bool" where
  "serves srv limit cnt \<longleftrightarrow>
     (\<forall>off. 0 \<le> off \<and> off \<le> cnt \<longrightarrow>
        (case srv off limit of
           Inl e \<Rightarrow> False
         | Inr comments_node \<Rightarrow>
             count comments_node = cnt \<and>
             int (length (comment_edges comments_node)) = min limit (cnt - off)))"

text \<open>
  The pages of tickets that the server gives from a cursor on: each but the last reports
  a next page and gives the cursor of the page behind it, the last reports none.
\<close>

fun ticket_chain ::
  "(int \<Rightarrow> string \<Rightarrow> error + tickets_node) \<Rightarrow> int \<Rightarrow> string \<Rightarrow> tickets_node list \<Rightarrow> bool" where
  "ticket_chain srv limit cursor [] = False"
| "ticket_chain srv limit cursor (t # ts) =
     (srv limit (fmt_cursor cursor) = Inr t \<and>
      (if ts = [] then \<not> hasNextPage (ticket_pageInfo t)
       else hasNextPage (ticket_pageInfo t) \<and>
            ticket_chain srv limit (endCursor (ticket_pageInfo t)) ts))"

subsection \<open>Example inputs\<close>

definition example_client :: gerrit_client where
  "example_client =
     \<lparr>gerrit_user = Some ''alice'', max_reviews = 500, blacklist_reviews = [],
      repository = ''review.example.org'', project = None, port = Some ''29418'',
      id_filepath = None, disable_host_key_check = False, gversion = (2, 8)\<rparr>"

definition review_at :: "int \<Rightarrow> review" where
  "review_at t = \<lparr>number = str_int t, lastUpdated = t, sortKey = ''k'' @ str_int t\<rparr>"

definition example_replies :: "string option \<Rightarrow> page list" where
  "example_replies filt =
     (if filt = Some ''status:open'' then [Inr [review_at 50, review_at 40]]
      else [Inr [review_at 45, review_at 10]])"

text \<open>Dates are given in minutes here: a listing of one old and one new event.\<close>

definition example_api :: meetup_api where
  "example_api =
     \<lparr>strptime = (\<lambda>s. if s = ''2024-05-01T18:00+0000'' then Inr 500
                     else if s = ''2023-01-01T18:00+0000'' then Inr 100 else Inl ValueError),
      event_full = (\<lambda>i. Inr \<lparr>event_id = i, dateTime = ''2024-05-01T18:00+0000'',
                            comments = None, rsvps = None, fetched_on = None\<rparr>),
      event_comments = (\<lambda>i off lim. Inr \<lparr>count = 3,
                            comment_edges = take (nat lim) (drop (nat off) [''c1'', ''c2'', ''c3''])\<rparr>),
      event_tickets = (\<lambda>i lim cur.
         if cur = ''null''
         then Inr \<lparr>ticket_edges = [''t1'', ''t2''], ticket_pageInfo = \<lparr>hasNextPage = True, endCursor = ''abc''\<rparr>\<rparr>
         else Inr \<lparr>ticket_edges = [''t3''], ticket_pageInfo = \<lparr>hasNextPage = False, endCursor = ''xyz''\<rparr>\<rparr>)\<rparr>"

definition example_listing :: "listing list" where
  "example_listing =
     [Inr (Some \<lparr>event_edges = [\<lparr>ref_id = ''old'', ref_dateTime = ''2023-01-01T18:00+0000''\<rparr>],
                 event_pageInfo = \<lparr>hasNextPage = False, endCursor = ''''\<rparr>\<rparr>),
      Inr (Some \<lparr>event_edges = [\<lparr>ref_id = ''new'', ref_dateTime = ''2024-05-01T18:00+0000''\<rparr>],
                 event_pageInfo = \<lparr>hasNextPage = False, endCursor = ''''\<rparr>\<rparr>)]"

definition example_event :: event where
  "example_event =
     \<lparr>event_id = ''new'', dateTime = ''2024-05-01T18:00+0000'',
      comments = None, rsvps = None, fetched_on = None\<rparr>"

text \<open>
  Commands that fail once or twice and then succeed, a command that fails every time,
  and a client that has to wait.
\<close>

definition fails_once :: "nat \<Rightarrow> string option" where
  "fails_once i = (if i = 0 then None else Some ''ok'')"

definition fails_twice :: "nat \<Rightarrow> string option" where
  "fails_twice i = (if i < 2 then None else Some ''ok'')"

definition always_fails :: "nat \<Rightarrow> string option" where
  "always_fails i = None"

definition throttled_client :: meetup_client where
  "throttled_client =
     \<lparr>api_token = ''token'', max_items = 10, sleep_for_rate = True, min_rate_to_sleep = 1,
      from_archive = False, rate_limit = Some 0, rate_limit_reset_ts = Some 100\<rparr>"

section \<open>The next-page cursor by version\<close>

text \<open>
  C7. \<open>next_retrieve_group_item\<close> depends on the version of the server. For 2.x with a
  minor above 9 and for 3.x it returns an integer offset: 0 on the first call (no
  \<open>last_item\<close>), afterwards the offset it is given, which \<open>_fetch_gerrit\<close> has advanced
  by one for each review it popped; the command then carries it as \<open>--start=\<close>. For
  version 2.9 it raises \<open>BackendError\<close>, whatever its arguments. For an older version
  it returns the \<open>sortKey\<close> of the entry popped last, which the command carries as
  \<open>resume_sortkey:\<close>.
\<close>

theorem next_retrieve_group_item_by_version:
  "((v0 = 2 \<and> 9 < v1) \<or> v0 = 3 \<longrightarrow>
      next_retrieve_group_item (v0, v1) None entry = Inr (Some (Offset 0)) \<and>
      next_retrieve_group_item (v0, v1) (Some (Offset n)) entry = Inr (Some (Offset n)) \<and>
      next_retrieve_group_item (v0, v1) (incr_item (Some (Offset n))) entry = Inr (Some (Offset (n + 1))) \<and>
      cursor_arg (v0, v1) (Some (Offset n)) = Inr ('' --start='' @ str_int n))
   \<and> next_retrieve_group_item (2, 9) li entry =
        Inl (BackendError ''Gerrit 2.9.0 does not support pagination'')
   \<and> (v0 < 2 \<or> (v0 = 2 \<and> v1 < 9) \<longrightarrow>
        next_retrieve_group_item (v0, v1) li (Some r) = Inr (Some (SortKey (sortKey r))) \<and>
        cursor_arg (v0, v1) (Some (SortKey (sortKey r))) = Inr ('' resume_sortkey:'' @ sortKey r))"
  by (auto simp: next_retrieve_group_item_def incr_item_def cursor_arg_def)

theorem next_retrieve_group_item_by_version_witness:
  "next_retrieve_group_item (2, 10) None None = Inr (Some (Offset 0)) \<and>
   next_retrieve_group_item (2, 10) (Some (Offset 500)) None = Inr (Some (Offset 500)) \<and>
   next_retrieve_group_item (2, 10) (incr_item (Some (Offset 500))) None = Inr (Some (Offset 501)) \<and>
   cursor_arg (2, 10) (Some (Offset 500)) = Inr '' --start=500'' \<and>
   next_retrieve_group_item (2, 9) None None =
     Inl (BackendError ''Gerrit 2.9.0 does not support pagination'') \<and>
   next_retrieve_group_item (2, 7) None
       (Some \<lparr>number = ''12'', lastUpdated = 50, sortKey = ''0029f9c2''\<rparr>) =
     Inr (Some (SortKey ''0029f9c2'')) \<and>
   cursor_arg (2, 7) (Some (SortKey ''0029f9c2'')) = Inr '' resume_sortkey:0029f9c2''"
  using next_retrieve_group_item_by_version
    [of 2 10 None 500 None "\<lparr>number = ''12'', lastUpdated = 50, sortKey = ''0029f9c2''\<rparr>"]
    next_retrieve_group_item_by_version
    [of 2 7 None 500 None "\<lparr>number = ''12'', lastUpdated = 50, sortKey = ''0029f9c2''\<rparr>"]
  by (simp add: str_int_def str_nat.simps)

section \<open>Nothing at or before the watermark is yielded\<close>

lemma gerrit_step_after:
  "gerrit_step c from_ut s = Next r s' \<or> gerrit_step c from_ut s = Last r st \<Longrightarrow>
   from_ut < real_of_int (lastUpdated r)"
  by (auto simp: gerrit_step_def split: list.splits if_splits sum.splits prod.splits)

lemma gerrit_run_after:
  "r \<in> set (fst (gerrit_run c from_ut s)) \<Longrightarrow> from_ut < real_of_int (lastUpdated r)"
proof (induction c from_ut s rule: gerrit_run.induct)
  case (1 c from_ut s)
  show ?case
  proof (cases "gerrit_step c from_ut s")
    case (Halt st)
    with "1.prems" show ?thesis by (simp add: gerrit_run.simps [of c from_ut s])
  next
    case (Last x st)
    with "1.prems" have "r = x" by (simp add: gerrit_run.simps [of c from_ut s])
    with Last gerrit_step_after show ?thesis by blast
  next
    case (Next x s')
    with "1.prems" have "r = x \<or> r \<in> set (fst (gerrit_run c from_ut s'))"
      by (auto simp: gerrit_run.simps [of c from_ut s] split: prod.splits)
    then show ?thesis
    proof
      assume "r = x"
      with Next gerrit_step_after show ?thesis by blast
    next
      assume "r \<in> set (fst (gerrit_run c from_ut s'))"
      with Next "1.IH" show ?thesis by blast
    qed
  qed
qed

lemma fetch_gerrit_after:
  "r \<in> set (fst (fetch_gerrit c from_ut ps)) \<Longrightarrow> from_ut < real_of_int (lastUpdated r)"
  by (auto simp: fetch_gerrit_def dest: gerrit_run_after split: sum.splits prod.splits)

lemma gerrit28_step_after:
  "gerrit28_step c from_ut s = Next r s' \<or> gerrit28_step c from_ut s = Last r st \<Longrightarrow>
   from_ut < real_of_int (lastUpdated r)"
  by (auto simp: gerrit28_step_def split: option.splits if_splits sum.splits prod.splits)

lemma gerrit28_run_after:
  "r \<in> set (fst (gerrit28_run c from_ut s)) \<Longrightarrow> from_ut < real_of_int (lastUpdated r)"
proof (induction c from_ut s rule: gerrit28_run.induct)
  case (1 c from_ut s)
  show ?case
  proof (cases "gerrit28_step c from_ut s")
    case (Halt st)
    with "1.prems" show ?thesis by (simp add: gerrit28_run.simps [of c from_ut s])
  next
    case (Last x st)
    with "1.prems" have "r = x" by (simp add: gerrit28_run.simps [of c from_ut s])
    with Last gerrit28_step_after show ?thesis by blast
  next
    case (Next x s')
    with "1.prems" have "r = x \<or> r \<in> set (fst (gerrit28_run c from_ut s'))"
      by (auto simp: gerrit28_run.simps [of c from_ut s] split: prod.splits)
    then show ?thesis
    proof
      assume "r = x"
      with Next gerrit28_step_after show ?thesis by blast
    next
      assume "r \<in> set (fst (gerrit28_run c from_ut s'))"
      with Next "1.IH" show ?thesis by blast
    qed
  qed
qed

lemma fetch_gerrit28_after:
  "r \<in> set (fst (fetch_gerrit28 c from_ut pso psc)) \<Longrightarrow> from_ut < real_of_int (lastUpdated r)"
  by (auto simp: fetch_gerrit28_def dest: gerrit28_run_after split: sum.splits prod.splits)

lemma page_events_after:
  "ev \<in> set (fst (page_events api from_date ns)) \<Longrightarrow> \<exists>n \<in> set ns. yields_for api from_date n ev"
proof (induction ns)
  case Nil
  then show ?case by simp
next
  case (Cons n ns)
  then show ?case
    by (auto simp: yields_for_def split: sum.splits if_splits prod.splits)
qed

lemma events_walk_after:
  "ev \<in> set (fst (events_walk api grp from_date idx cursor replies)) \<Longrightarrow>
   \<exists>n \<in> set (listed replies). yields_for api from_date n ev"
proof (induction replies arbitrary: idx cursor)
  case Nil
  then show ?case by simp
next
  case (Cons reply replies)
  show ?case
  proof (cases reply)
    case (Inl e)
    with Cons.prems show ?thesis by simp
  next
    case (Inr pg)
    show ?thesis
    proof (cases pg)
      case None
      with Inr Cons.prems show ?thesis by simp
    next
      case (Some events_page)
      have here: "set (event_edges events_page) \<subseteq> set (listed (reply # replies))"
        and later: "set (listed replies) \<subseteq> set (listed (reply # replies))"
        using Inr Some by (auto simp: listed_def)
      from Cons.prems Inr Some
      have "ev \<in> set (fst (page_events api from_date (event_edges events_page))) \<or>
            (\<exists>i cu. ev \<in> set (fst (events_walk api grp from_date i cu replies)))"
        by (cases "page_events api from_date (event_edges events_page)")
          (auto simp: case_prod_beta split: option.splits if_splits)
      then show ?thesis
      proof
        assume "ev \<in> set (fst (page_events api from_date (event_edges events_page)))"
        from page_events_after [OF this] here show ?thesis by blast
      next
        assume "\<exists>i cu. ev \<in> set (fst (events_walk api grp from_date i cu replies))"
        then obtain i cu where "ev \<in> set (fst (events_walk api grp from_date i cu replies))"
          by blast
        from Cons.IH [OF this] later show ?thesis by blast
      qed
    qed
  qed
qed

lemmas gerrit28_eval =
  fetch_items_def fetch_gerrit28_def next_retrieve_group_item_def get_reviews_def
  get_gerrit_cmd_def truthy_def cursor_arg_def gerrit28_run.simps gerrit28_step_def
  pop28_def refill_open_def refill_closed_def

section \<open>The claims about the watermark\<close>

text \<open>
  C1. Whatever the watermark and whatever the replies of the server, every review that a
  Gerrit fetch yields (through \<open>fetch_items\<close>, by \<open>_fetch_gerrit\<close> or by
  \<open>_fetch_gerrit28\<close>) has \<open>lastUpdated\<close> strictly above the UNIX timestamp of the
  watermark, and \<open>_fetch_gerrit\<close> stops without a yield when the review at the front is
  at or before it. Every event that the Meetup walk yields is the full event of an edge
  of the listing whose \<open>dateTime\<close> lies strictly after \<open>from_date\<close>.
\<close>

theorem no_yield_at_or_before_watermark:
  "(\<forall>r \<in> set (fst (fetch_items c from_ut replies)). from_ut < real_of_int (lastUpdated r)) \<and>
   (\<forall>r \<in> set (fst (fetch_gerrit c from_ut ps)). from_ut < real_of_int (lastUpdated r)) \<and>
   (\<forall>r \<in> set (fst (fetch_gerrit28 c from_ut pso psc)). from_ut < real_of_int (lastUpdated r)) \<and>
   (real_of_int (lastUpdated r0) \<le> from_ut \<longrightarrow>
      gerrit_run c from_ut (s\<lparr>reviews := r0 # rest\<rparr>) = ([], Completed)) \<and>
   (\<forall>ev \<in> set (fst (events api grp from_date listing)).
      \<exists>n \<in> set (listed listing). yields_for api from_date n ev)"
proof (intro conjI ballI impI)
  fix r assume "r \<in> set (fst (fetch_items c from_ut replies))"
  then show "from_ut < real_of_int (lastUpdated r)"
    by (auto simp: fetch_items_def dest: fetch_gerrit_after fetch_gerrit28_after split: if_splits)
next
  fix r assume "r \<in> set (fst (fetch_gerrit c from_ut ps))"
  then show "from_ut < real_of_int (lastUpdated r)" by (rule fetch_gerrit_after)
next
  fix r assume "r \<in> set (fst (fetch_gerrit28 c from_ut pso psc))"
  then show "from_ut < real_of_int (lastUpdated r)" by (rule fetch_gerrit28_after)
next
  assume "real_of_int (lastUpdated r0) \<le> from_ut"
  then show "gerrit_run c from_ut (s\<lparr>reviews := r0 # rest\<rparr>) = ([], Completed)"
    by (simp add: gerrit_run.simps [of c from_ut "s\<lparr>reviews := r0 # rest\<rparr>"] gerrit_step_def)
next
  fix ev assume "ev \<in> set (fst (events api grp from_date listing))"
  then show "\<exists>n \<in> set (listed listing). yields_for api from_date n ev"
    unfolding events_def by (rule events_walk_after)
qed

theorem no_yield_at_or_before_watermark_witness:
  "fst (fetch_items example_client 30 example_replies) = [review_at 50, review_at 45, review_at 40] \<and>
   (30 :: real) < real_of_int (lastUpdated (review_at 40)) \<and>
   fst (fetch_gerrit (example_client\<lparr>gversion := (3, 1)\<rparr>) 30 [Inr [review_at 50, review_at 10]]) =
     [review_at 50] \<and>
   fst (fetch_gerrit28 example_client 30 [Inr [review_at 50]] [Inr [review_at 20]]) = [review_at 50] \<and>
   real_of_int (lastUpdated (review_at 10)) \<le> 30 \<and>
   gerrit_run example_client 30
     (\<lparr>reviews = [], last_nreviews = 2, last_item = None, pages = []\<rparr>\<lparr>reviews := review_at 10 # [review_at 5]\<rparr>) =
     ([], Completed) \<and>
   fst (events example_api ''grimoire'' 300 example_listing) = [example_event] \<and>
   \<lparr>ref_id = ''new'', ref_dateTime = ''2024-05-01T18:00+0000''\<rparr> \<in> set (listed example_listing) \<and>
   yields_for example_api 300 \<lparr>ref_id = ''new'', ref_dateTime = ''2024-05-01T18:00+0000''\<rparr> example_event"
  using no_yield_at_or_before_watermark
    [where c = example_client and from_ut = 30 and replies = example_replies
       and ps = "[Inr [review_at 50, review_at 10]]"
       and pso = "[Inr [review_at 50]]" and psc = "[Inr [review_at 20]]"
       and ?r0.0 = "review_at 10"
       and s = "\<lparr>reviews = [], last_nreviews = 2, last_item = None, pages = []\<rparr>"
       and rest = "[review_at 5]"
       and api = example_api and grp = "''grimoire''" and from_date = 300
       and listing = example_listing]
  by (simp add: gerrit28_eval example_client_def example_replies_def review_at_def
      fetch_gerrit_def gerrit_run.simps gerrit_step_def incr_item_def
      events_def example_api_def example_listing_def example_event_def VEVENT_TYPES_def
      listed_def yields_for_def)

text \<open>
  C2. In \<open>_fetch_gerrit28\<close>, when the review that the merge pops is at or before the
  watermark, the fetch is over at once: that review is not yielded, nothing behind it
  in either queue is yielded, and no further page is asked for. For a server on version
  2.8 with the open reviews \<open>[50, 40]\<close> and the closed reviews \<open>[45, 10]\<close> (more than two
  reviews to a page, or each partition ending with an empty page) and the watermark 30,
  the fetch yields exactly \<open>[50, 45, 40]\<close> and completes: the review at 10 is never
  yielded.
\<close>

theorem gerrit28_stops_at_watermark:
  "(pop28 s = Some (r, s1) \<and> real_of_int (lastUpdated r) \<le> from_ut \<longrightarrow>
      gerrit28_run c from_ut s = ([], Completed)) \<and>
   (gversion c = (2, 8) \<and>
    lastUpdated a = 50 \<and> lastUpdated b = 40 \<and> lastUpdated d = 45 \<and> lastUpdated e = 10 \<longrightarrow>
      (2 < max_reviews c \<longrightarrow>
         fetch_gerrit28 c 30 (Inr [a, b] # po) (Inr [d, e] # pc) = ([a, d, b], Completed)) \<and>
      fetch_gerrit28 c 30 [Inr [a, b], Inr []] [Inr [d, e], Inr []] = ([a, d, b], Completed) \<and>
      e \<notin> set [a, d, b])"
proof (intro conjI impI)
  assume "pop28 s = Some (r, s1) \<and> real_of_int (lastUpdated r) \<le> from_ut"
  then show "gerrit28_run c from_ut s = ([], Completed)"
    by (simp add: gerrit28_run.simps [of c from_ut s] gerrit28_step_def)
next
  assume h: "gversion c = (2, 8) \<and>
    lastUpdated a = 50 \<and> lastUpdated b = 40 \<and> lastUpdated d = 45 \<and> lastUpdated e = 10"
  assume "2 < max_reviews c"
  with h show "fetch_gerrit28 c 30 (Inr [a, b] # po) (Inr [d, e] # pc) = ([a, d, b], Completed)"
    by (simp add: gerrit28_eval)
next
  assume h: "gversion c = (2, 8) \<and>
    lastUpdated a = 50 \<and> lastUpdated b = 40 \<and> lastUpdated d = 45 \<and> lastUpdated e = 10"
  then show "fetch_gerrit28 c 30 [Inr [a, b], Inr []] [Inr [d, e], Inr []] = ([a, d, b], Completed)"
    by (simp add: gerrit28_eval)
next
  assume h: "gversion c = (2, 8) \<and>
    lastUpdated a = 50 \<and> lastUpdated b = 40 \<and> lastUpdated d = 45 \<and> lastUpdated e = 10"
  then show "e \<notin> set [a, d, b]" by auto
qed

theorem gerrit28_stops_at_watermark_witness:
  "pop28 \<lparr>reviews_open = [review_at 5, review_at 99], reviews_closed = [review_at 10],
          last_nreviews_open = 2, last_nreviews_closed = 1,
          last_item_open = None, last_item_closed = None,
          review_open = None, review_closed = None,
          pages_open = [Inr [review_at 98]], pages_closed = []\<rparr> =
     Some (review_at 10,
           \<lparr>reviews_open = [review_at 5, review_at 99], reviews_closed = [],
            last_nreviews_open = 2, last_nreviews_closed = 1,
            last_item_open = None, last_item_closed = None,
            review_open = None, review_closed = Some (review_at 10),
            pages_open = [Inr [review_at 98]], pages_closed = []\<rparr>) \<and>
   real_of_int (lastUpdated (review_at 10)) \<le> 30 \<and>
   gerrit28_run (example_client\<lparr>max_reviews := 2\<rparr>) 30
     \<lparr>reviews_open = [review_at 5, review_at 99], reviews_closed = [review_at 10],
      last_nreviews_open = 2, last_nreviews_closed = 1,
      last_item_open = None, last_item_closed = None,
      review_open = None, review_closed = None,
      pages_open = [Inr [review_at 98]], pages_closed = []\<rparr> = ([], Completed) \<and>
   gversion (example_client\<lparr>max_reviews := 2\<rparr>) = (2, 8) \<and>
   lastUpdated (review_at 50) = 50 \<and> lastUpdated (review_at 40) = 40 \<and>
   lastUpdated (review_at 45) = 45 \<and> lastUpdated (review_at 10) = 10 \<and>
   fetch_gerrit28 (example_client\<lparr>max_reviews := 2\<rparr>) 30
     [Inr [review_at 50, review_at 40], Inr []] [Inr [review_at 45, review_at 10], Inr []] =
     ([review_at 50, review_at 45, review_at 40], Completed) \<and>
   (2 :: int) < max_reviews example_client \<and>
   fetch_gerrit28 example_client 30
     [Inr [review_at 50, review_at 40]] [Inr [review_at 45, review_at 10]] =
     ([review_at 50, review_at 45, review_at 40], Completed)"
  using gerrit28_stops_at_watermark
    [where s = "\<lparr>reviews_open = [review_at 5, review_at 99], reviews_closed = [review_at 10],
          last_nreviews_open = 2, last_nreviews_closed = 1,
          last_item_open = None, last_item_closed = None,
          review_open = None, review_closed = None,
          pages_open = [Inr [review_at 98]], pages_closed = []\<rparr>"
       and r = "review_at 10"
       and ?s1.0 = "\<lparr>reviews_open = [review_at 5, review_at 99], reviews_closed = [],
            last_nreviews_open = 2, last_nreviews_closed = 1,
            last_item_open = None, last_item_closed = None,
            review_open = None, review_closed = Some (review_at 10),
            pages_open = [Inr [review_at 98]], pages_closed = []\<rparr>"
       and from_ut = 30 and c = "example_client\<lparr>max_reviews := 2\<rparr>"
       and a = "review_at 50" and b = "review_at 40" and d = "review_at 45" and e = "review_at 10"]
    gerrit28_stops_at_watermark
    [where c = example_client and po = "[]" and pc = "[]"
       and a = "review_at 50" and b = "review_at 40" and d = "review_at 45" and e = "review_at 10"]
  by (simp add: pop28_def review_at_def example_client_def)

section \<open>The merge of the two partitions\<close>

lemma descending_prefix: "descending (xs @ ys) \<Longrightarrow> descending xs"
  by (simp add: descending_def sorted_wrt_append)

lemma get_reviews_items:
  "get_reviews c li filt ps = Inr (rs, rest) \<Longrightarrow>
   concat (map page_items ps) = rs @ concat (map page_items rest)"
  by (auto simp: get_reviews_def page_items_def split: sum.splits list.splits)

lemma refill_open_pending:
  assumes "refill_open c s = Inr s'" and "1 \<le> max_reviews c"
  shows "(\<exists>rest. pending_open c s = pending_open c s' @ rest) \<and>
         pending_closed c s' = pending_closed c s \<and>
         (reviews_open s' = [] \<longrightarrow> int (last_nreviews_open s') < max_reviews c) \<and>
         reviews_closed s' = reviews_closed s \<and> last_nreviews_closed s' = last_nreviews_closed s"
  using assms
  by (auto simp: refill_open_def pending_open_def pending_closed_def dest!: get_reviews_items
      split: if_splits option.splits sum.splits prod.splits)

lemma refill_closed_pending:
  assumes "refill_closed c s = Inr s'" and "1 \<le> max_reviews c"
  shows "(\<exists>rest. pending_closed c s = pending_closed c s' @ rest) \<and>
         pending_open c s' = pending_open c s \<and>
         (reviews_closed s' = [] \<longrightarrow> int (last_nreviews_closed s') < max_reviews c) \<and>
         reviews_open s' = reviews_open s \<and> last_nreviews_open s' = last_nreviews_open s"
  using assms
  by (auto simp: refill_closed_def pending_open_def pending_closed_def dest!: get_reviews_items
      split: if_splits option.splits sum.splits prod.splits)

lemma descending_Cons:
  "descending (x # xs) \<longleftrightarrow> (\<forall>y \<in> set xs. lastUpdated y \<le> lastUpdated x) \<and> descending xs"
  by (simp add: descending_def)

lemma descending_bound:
  assumes "descending (z # zs)" and "lastUpdated z \<le> t"
  shows "\<forall>y \<in> set (z # zs). lastUpdated y \<le> t"
  using assms by (auto simp: descending_Cons)

lemma pop28_cases:
  assumes "pop28 s = Some (r, s1)"
  shows "(\<exists>os. reviews_open s = r # os \<and> s1 = s\<lparr>reviews_open := os, review_open := Some r\<rparr> \<and>
            (\<forall>rc cs. reviews_closed s = rc # cs \<longrightarrow> lastUpdated rc \<le> lastUpdated r)) \<or>
         (\<exists>cs. reviews_closed s = r # cs \<and> s1 = s\<lparr>reviews_closed := cs, review_closed := Some r\<rparr> \<and>
            (\<forall>ro os. reviews_open s = ro # os \<longrightarrow> lastUpdated ro \<le> lastUpdated r))"
  using assms by (auto simp: pop28_def split: list.splits if_splits)

lemma pop28_pending:
  assumes "pop28 s = Some (r, s1)" and "refilled c s"
    and "descending (pending_open c s)" and "descending (pending_closed c s)"
  shows "descending (pending_open c s1) \<and> descending (pending_closed c s1) \<and>
         (\<forall>y \<in> set (pending_open c s1) \<union> set (pending_closed c s1). lastUpdated y \<le> lastUpdated r) \<and>
         set (pending_open c s1) \<union> set (pending_closed c s1) \<subseteq>
           set (pending_open c s) \<union> set (pending_closed c s)"
proof -
  have empty_open: "reviews_open s = [] \<Longrightarrow> pending_open c s = []"
    using assms(2) by (simp add: refilled_def pending_open_def)
  have empty_closed: "reviews_closed s = [] \<Longrightarrow> pending_closed c s = []"
    using assms(2) by (simp add: refilled_def pending_closed_def)
  from pop28_cases [OF assms(1)] show ?thesis
  proof
    assume "\<exists>os. reviews_open s = r # os \<and> s1 = s\<lparr>reviews_open := os, review_open := Some r\<rparr> \<and>
            (\<forall>rc cs. reviews_closed s = rc # cs \<longrightarrow> lastUpdated rc \<le> lastUpdated r)"
    then obtain os where o: "reviews_open s = r # os"
      and s1: "s1 = s\<lparr>reviews_open := os, review_open := Some r\<rparr>"
      and le: "\<forall>rc cs. reviews_closed s = rc # cs \<longrightarrow> lastUpdated rc \<le> lastUpdated r"
      by blast
    have po: "pending_open c s = r # pending_open c s1"
      using o s1 by (simp add: pending_open_def)
    have pc: "pending_closed c s1 = pending_closed c s"
      using s1 by (simp add: pending_closed_def)
    have bo: "\<forall>y \<in> set (pending_open c s1). lastUpdated y \<le> lastUpdated r"
      using assms(3) po by (simp add: descending_Cons)
    have bc: "\<forall>y \<in> set (pending_closed c s). lastUpdated y \<le> lastUpdated r"
    proof (cases "reviews_closed s")
      case Nil
      with empty_closed show ?thesis by simp
    next
      case (Cons rc cs)
      then obtain zs where z: "pending_closed c s = rc # zs" by (simp add: pending_closed_def)
      from le Cons have "lastUpdated rc \<le> lastUpdated r" by blast
      with descending_bound [of rc zs "lastUpdated r"] assms(4) z show ?thesis by simp
    qed
    have "descending (pending_open c s1)" using assms(3) po by (simp add: descending_Cons)
    with assms(4) pc bo bc po show ?thesis by auto
  next
    assume "\<exists>cs. reviews_closed s = r # cs \<and> s1 = s\<lparr>reviews_closed := cs, review_closed := Some r\<rparr> \<and>
            (\<forall>ro os. reviews_open s = ro # os \<longrightarrow> lastUpdated ro \<le> lastUpdated r)"
    then obtain cs where cl: "reviews_closed s = r # cs"
      and s1: "s1 = s\<lparr>reviews_closed := cs, review_closed := Some r\<rparr>"
      and le: "\<forall>ro os. reviews_open s = ro # os \<longrightarrow> lastUpdated ro \<le> lastUpdated r"
      by blast
    have pc: "pending_closed c s = r # pending_closed c s1"
      using cl s1 by (simp add: pending_closed_def)
    have po: "pending_open c s1 = pending_open c s"
      using s1 by (simp add: pending_open_def)
    have bc: "\<forall>y \<in> set (pending_closed c s1). lastUpdated y \<le> lastUpdated r"
      using assms(4) pc by (simp add: descending_Cons)
    have bo: "\<forall>y \<in> set (pending_open c s). lastUpdated y \<le> lastUpdated r"
    proof (cases "reviews_open s")
      case Nil
      with empty_open show ?thesis by simp
    next
      case (Cons ro os)
      then obtain zs where z: "pending_open c s = ro # zs" by (simp add: pending_open_def)
      from le Cons have "lastUpdated ro \<le> lastUpdated r" by blast
      with descending_bound [of ro zs "lastUpdated r"] assms(3) z show ?thesis by simp
    qed
    have "descending (pending_closed c s1)" using assms(4) pc by (simp add: descending_Cons)
    with assms(3) po bo bc pc show ?thesis by auto
  qed
qed

lemma gerrit28_step_pending:
  assumes "gerrit28_step c from_ut s = Next r s'" and "1 \<le> max_reviews c" and "refilled c s"
    and "descending (pending_open c s)" and "descending (pending_closed c s)"
  shows "refilled c s' \<and> descending (pending_open c s') \<and> descending (pending_closed c s') \<and>
         (\<forall>y \<in> set (pending_open c s') \<union> set (pending_closed c s'). lastUpdated y \<le> lastUpdated r) \<and>
         set (pending_open c s') \<union> set (pending_closed c s') \<subseteq>
           set (pending_open c s) \<union> set (pending_closed c s)"
proof -
  from assms(1) obtain s1 s2 where p: "pop28 s = Some (r, s1)"
    and o: "refill_open c s1 = Inr s2" and cl: "refill_closed c s2 = Inr s'"
    by (auto simp: gerrit28_step_def split: option.splits if_splits sum.splits)
  from refill_open_pending [OF o assms(2)] obtain rest1 where
    o1: "pending_open c s1 = pending_open c s2 @ rest1"
    and o2: "pending_closed c s2 = pending_closed c s1"
    and o3: "reviews_open s2 = [] \<longrightarrow> int (last_nreviews_open s2) < max_reviews c"
    by blast
  from refill_closed_pending [OF cl assms(2)] obtain rest2 where
    c1: "pending_closed c s2 = pending_closed c s' @ rest2"
    and c2: "pending_open c s' = pending_open c s2"
    and c3: "reviews_closed s' = [] \<longrightarrow> int (last_nreviews_closed s') < max_reviews c"
    and c4: "reviews_open s' = reviews_open s2" "last_nreviews_open s' = last_nreviews_open s2"
    by blast
  from pop28_pending [OF p assms(3) assms(4) assms(5)]
  have d1: "descending (pending_open c s1)" and d2: "descending (pending_closed c s1)"
    and b: "\<forall>y \<in> set (pending_open c s1) \<union> set (pending_closed c s1). lastUpdated y \<le> lastUpdated r"
    and sub: "set (pending_open c s1) \<union> set (pending_closed c s1) \<subseteq>
              set (pending_open c s) \<union> set (pending_closed c s)"
    by simp_all
  have po: "pending_open c s1 = pending_open c s' @ rest1" using o1 c2 by simp
  have pc: "pending_closed c s1 = pending_closed c s' @ rest2" using c1 o2 by simp
  have "refilled c s'" using o3 c3 c4 by (simp add: refilled_def)
  moreover have "descending (pending_open c s')" using d1 po descending_prefix by metis
  moreover have "descending (pending_closed c s')" using d2 pc descending_prefix by metis
  moreover have "\<forall>y \<in> set (pending_open c s') \<union> set (pending_closed c s'). lastUpdated y \<le> lastUpdated r"
    using b po pc by auto
  moreover have "set (pending_open c s') \<union> set (pending_closed c s') \<subseteq>
           set (pending_open c s) \<union> set (pending_closed c s)"
    using sub po pc by auto
  ultimately show ?thesis by blast
qed

lemma gerrit28_step_member:
  "gerrit28_step c from_ut s = Next r s' \<or> gerrit28_step c from_ut s = Last r st \<Longrightarrow>
   r \<in> set (pending_open c s) \<union> set (pending_closed c s)"
  by (auto simp: gerrit28_step_def pop28_def pending_open_def pending_closed_def
      split: option.splits if_splits sum.splits list.splits)

lemma gerrit28_run_bounded:
  assumes "1 \<le> max_reviews c" and "refilled c s"
    and "descending (pending_open c s)" and "descending (pending_closed c s)"
  shows "descending (fst (gerrit28_run c from_ut s)) \<and>
         set (fst (gerrit28_run c from_ut s)) \<subseteq> set (pending_open c s) \<union> set (pending_closed c s)"
  using assms
proof (induction c from_ut s rule: gerrit28_run.induct)
  case (1 c from_ut s)
  show ?case
  proof (cases "gerrit28_step c from_ut s")
    case (Halt st)
    then show ?thesis by (simp add: gerrit28_run.simps [of c from_ut s] descending_def)
  next
    case (Last x st)
    with gerrit28_step_member [of c from_ut s x] show ?thesis
      by (simp add: gerrit28_run.simps [of c from_ut s] descending_def)
  next
    case (Next x s')
    from gerrit28_step_pending [OF Next "1.prems"]
    have r: "refilled c s'"
      and d: "descending (pending_open c s')" "descending (pending_closed c s')"
      and b: "\<forall>y \<in> set (pending_open c s') \<union> set (pending_closed c s'). lastUpdated y \<le> lastUpdated x"
      and sub: "set (pending_open c s') \<union> set (pending_closed c s') \<subseteq>
                set (pending_open c s) \<union> set (pending_closed c s)"
      by simp_all
    from "1.IH" [OF Next "1.prems"(1) r d]
    have ih: "descending (fst (gerrit28_run c from_ut s'))"
      "set (fst (gerrit28_run c from_ut s')) \<subseteq> set (pending_open c s') \<union> set (pending_closed c s')"
      by simp_all
    have run: "fst (gerrit28_run c from_ut s) = x # fst (gerrit28_run c from_ut s')"
      using Next by (simp add: gerrit28_run.simps [of c from_ut s] case_prod_beta)
    have x: "x \<in> set (pending_open c s) \<union> set (pending_closed c s)"
      using gerrit28_step_member [of c from_ut s x] Next by simp
    from ih b have "descending (x # fst (gerrit28_run c from_ut s'))"
      unfolding descending_def by auto
    with run ih sub x show ?thesis by auto
  qed
qed

lemma fetch_gerrit28_descending:
  assumes "1 \<le> max_reviews c"
    and "descending (concat (map page_items pso))"
    and "descending (concat (map page_items psc))"
  shows "descending (fst (fetch_gerrit28 c from_ut pso psc))"
proof (cases "next_retrieve_group_item (gversion c) None None")
  case (Inl e)
  then show ?thesis by (simp add: fetch_gerrit28_def descending_def)
next
  case (Inr li)
  show ?thesis
  proof (cases "get_reviews c li (Some ''status:open'') pso")
    case (Inl st)
    with Inr show ?thesis by (simp add: fetch_gerrit28_def descending_def)
  next
    case o: (Inr po)
    obtain ro resto where po: "po = (ro, resto)" by (cases po)
    show ?thesis
    proof (cases "get_reviews c li (Some ''status:closed'') psc")
      case (Inl st)
      with Inr o po show ?thesis by (simp add: fetch_gerrit28_def descending_def)
    next
      case cl: (Inr pc)
      obtain rc restc where pc: "pc = (rc, restc)" by (cases pc)
      let ?s = "\<lparr>reviews_open = ro, reviews_closed = rc,
                 last_nreviews_open = length ro, last_nreviews_closed = length rc,
                 last_item_open = li, last_item_closed = li,
                 review_open = None, review_closed = None,
                 pages_open = resto, pages_closed = restc\<rparr>"
      from get_reviews_items [of c li _ pso ro resto] o po assms(2)
      have "descending (pending_open c ?s)"
        by (auto simp: pending_open_def dest: descending_prefix)
      moreover from get_reviews_items [of c li _ psc rc restc] cl pc assms(3)
      have "descending (pending_closed c ?s)"
        by (auto simp: pending_closed_def dest: descending_prefix)
      moreover have "refilled c ?s" using assms(1) by (auto simp: refilled_def)
      ultimately have "descending (fst (gerrit28_run c from_ut ?s))"
        using gerrit28_run_bounded assms(1) by blast
      with Inr o po cl pc show ?thesis by (simp add: fetch_gerrit28_def)
    qed
  qed
qed

text \<open>
  C3. A merge step of \<open>_fetch_gerrit28\<close> pops the front of the queue whose front has the
  greater \<open>lastUpdated\<close>, the open one when they are equal, and the front of the only
  queue that is not empty otherwise; there is no second key. So, if the reviews of each
  partition arrive non-increasing in \<open>lastUpdated\<close> over its pages, the reviews that
  the fetch of a backend's client yields are non-increasing in \<open>lastUpdated\<close>, up to
  where the fetch stops.
\<close>

theorem gerrit28_merge_order:
  "(reviews_open s = ro # os \<and> reviews_closed s = rc # cs \<and> lastUpdated ro \<ge> lastUpdated rc \<longrightarrow>
      pop28 s = Some (ro, s\<lparr>reviews_open := os, review_open := Some ro\<rparr>)) \<and>
   (reviews_open s = ro # os \<and> reviews_closed s = rc # cs \<and> lastUpdated ro < lastUpdated rc \<longrightarrow>
      pop28 s = Some (rc, s\<lparr>reviews_closed := cs, review_closed := Some rc\<rparr>)) \<and>
   (reviews_open s = [] \<and> reviews_closed s = rc # cs \<longrightarrow>
      pop28 s = Some (rc, s\<lparr>reviews_closed := cs, review_closed := Some rc\<rparr>)) \<and>
   (reviews_open s = ro # os \<and> reviews_closed s = [] \<longrightarrow>
      pop28 s = Some (ro, s\<lparr>reviews_open := os, review_open := Some ro\<rparr>)) \<and>
   (descending (concat (map page_items pso)) \<and> descending (concat (map page_items psc)) \<longrightarrow>
      descending (fst (fetch_gerrit28 (backend_client c) from_ut pso psc)))"
proof (intro conjI impI)
  assume "descending (concat (map page_items pso)) \<and> descending (concat (map page_items psc))"
  moreover have "1 \<le> max_reviews (backend_client c)" by (simp add: backend_client_def)
  ultimately show "descending (fst (fetch_gerrit28 (backend_client c) from_ut pso psc))"
    using fetch_gerrit28_descending by blast
qed (simp_all add: pop28_def)

theorem gerrit28_merge_order_witness:
  "pop28 \<lparr>reviews_open = [review_at 45, review_at 40], reviews_closed = [review_at 45, review_at 10],
          last_nreviews_open = 2, last_nreviews_closed = 2,
          last_item_open = None, last_item_closed = None,
          review_open = None, review_closed = None, pages_open = [], pages_closed = []\<rparr> =
     Some (review_at 45,
       \<lparr>reviews_open = [review_at 40], reviews_closed = [review_at 45, review_at 10],
        last_nreviews_open = 2, last_nreviews_closed = 2,
        last_item_open = None, last_item_closed = None,
        review_open = Some (review_at 45), review_closed = None, pages_open = [], pages_closed = []\<rparr>) \<and>
   pop28 \<lparr>reviews_open = [review_at 40], reviews_closed = [review_at 45, review_at 10],
          last_nreviews_open = 2, last_nreviews_closed = 2,
          last_item_open = None, last_item_closed = None,
          review_open = None, review_closed = None, pages_open = [], pages_closed = []\<rparr> =
     Some (review_at 45,
       \<lparr>reviews_open = [review_at 40], reviews_closed = [review_at 10],
        last_nreviews_open = 2, last_nreviews_closed = 2,
        last_item_open = None, last_item_closed = None,
        review_open = None, review_closed = Some (review_at 45), pages_open = [], pages_closed = []\<rparr>) \<and>
   descending (concat (map page_items [Inr [review_at 50, review_at 40], Inr [review_at 35]])) \<and>
   descending (concat (map page_items [Inr [review_at 45, review_at 10]])) \<and>
   fst (fetch_gerrit28 (backend_client (example_client\<lparr>max_reviews := 2\<rparr>)) 30
          [Inr [review_at 50, review_at 40], Inr [review_at 35]] [Inr [review_at 45, review_at 10]]) =
     [review_at 50, review_at 45, review_at 40, review_at 35] \<and>
   descending [review_at 50, review_at 45, review_at 40, review_at 35]"
proof -
  have run: "fst (fetch_gerrit28 (backend_client (example_client\<lparr>max_reviews := 2\<rparr>)) 30
          [Inr [review_at 50, review_at 40], Inr [review_at 35]] [Inr [review_at 45, review_at 10]]) =
     [review_at 50, review_at 45, review_at 40, review_at 35]"
    by (simp add: gerrit28_eval backend_client_def example_client_def review_at_def)
  have hyp: "descending (concat (map page_items [Inr [review_at 50, review_at 40], Inr [review_at 35]])) \<and>
     descending (concat (map page_items [Inr [review_at 45, review_at 10]]))"
    by (simp add: descending_def page_items_def review_at_def)
  from gerrit28_merge_order
    [where pso = "[Inr [review_at 50, review_at 40], Inr [review_at 35]]"
       and psc = "[Inr [review_at 45, review_at 10]]"
       and c = "example_client\<lparr>max_reviews := 2\<rparr>" and from_ut = 30] hyp
  have "descending (fst (fetch_gerrit28 (backend_client (example_client\<lparr>max_reviews := 2\<rparr>)) 30
          [Inr [review_at 50, review_at 40], Inr [review_at 35]] [Inr [review_at 45, review_at 10]]))"
    by blast
  with run have d: "descending [review_at 50, review_at 45, review_at 40, review_at 35]"
    by simp
  from gerrit28_merge_order
    [where s = "\<lparr>reviews_open = [review_at 45, review_at 40], reviews_closed = [review_at 45, review_at 10],
          last_nreviews_open = 2, last_nreviews_closed = 2,
          last_item_open = None, last_item_closed = None,
          review_open = None, review_closed = None, pages_open = [], pages_closed = []\<rparr>"
       and ro = "review_at 45" and os = "[review_at 40]" and rc = "review_at 45" and cs = "[review_at 10]"]
  have p1: "pop28 \<lparr>reviews_open = [review_at 45, review_at 40], reviews_closed = [review_at 45, review_at 10],
          last_nreviews_open = 2, last_nreviews_closed = 2,
          last_item_open = None, last_item_closed = None,
          review_open = None, review_closed = None, pages_open = [], pages_closed = []\<rparr> =
     Some (review_at 45,
       \<lparr>reviews_open = [review_at 40], reviews_closed = [review_at 45, review_at 10],
        last_nreviews_open = 2, last_nreviews_closed = 2,
        last_item_open = None, last_item_closed = None,
        review_open = Some (review_at 45), review_closed = None, pages_open = [], pages_closed = []\<rparr>)"
    by simp
  from gerrit28_merge_order
    [where s = "\<lparr>reviews_open = [review_at 40], reviews_closed = [review_at 45, review_at 10],
          last_nreviews_open = 2, last_nreviews_closed = 2,
          last_item_open = None, last_item_closed = None,
          review_open = None, review_closed = None, pages_open = [], pages_closed = []\<rparr>"
       and ro = "review_at 40" and os = "[]" and rc = "review_at 45" and cs = "[review_at 10]"]
  have p2: "pop28 \<lparr>reviews_open = [review_at 40], reviews_closed = [review_at 45, review_at 10],
          last_nreviews_open = 2, last_nreviews_closed = 2,
          last_item_open = None, last_item_closed = None,
          review_open = None, review_closed = None, pages_open = [], pages_closed = []\<rparr> =
     Some (review_at 45,
       \<lparr>reviews_open = [review_at 40], reviews_closed = [review_at 10],
        last_nreviews_open = 2, last_nreviews_closed = 2,
        last_item_open = None, last_item_closed = None,
        review_open = None, review_closed = Some (review_at 45), pages_open = [], pages_closed = []\<rparr>)"
    by (simp add: review_at_def)
  from p1 p2 hyp run d show ?thesis by blast
qed

section \<open>Retries of the ssh command\<close>

text \<open>
  The loop from \<open>retries = r\<close> on: if the runs \<open>r\<close> to \<open>k - 1\<close> fail and run \<open>k\<close>, one of
  the first \<open>MAX_RETRIES\<close>, gives a result, the loop ends with that result after a sleep
  of \<open>RETRY_WAIT * i\<close> for each failed run \<open>i\<close>.
\<close>

lemma retry_loop_success:
  assumes "k < MAX_RETRIES" and "check_output k = Some out"
    and "\<forall>i. r \<le> i \<and> i < k \<longrightarrow> check_output i = None" and "r \<le> k"
  shows "retry_loop check_output r slept = (Some out, slept @ map (\<lambda>i. RETRY_WAIT * i) [r..<k])"
  using assms
proof (induction "k - r" arbitrary: r slept)
  case 0
  then have "r = k" by simp
  with "0.prems" show ?case by (simp add: retry_loop.simps [of check_output k slept])
next
  case (Suc d)
  then have lt: "r < k" and none: "check_output r = None" by auto
  have step: "retry_loop check_output r slept =
              retry_loop check_output (r + 1) (slept @ [RETRY_WAIT * r])"
    using lt none Suc.prems(1) by (simp add: retry_loop.simps [of check_output r slept])
  have "retry_loop check_output (r + 1) (slept @ [RETRY_WAIT * r]) =
        (Some out, (slept @ [RETRY_WAIT * r]) @ map (\<lambda>i. RETRY_WAIT * i) [r + 1..<k])"
    using Suc.hyps(2) Suc.prems lt by (intro Suc.hyps(1)) auto
  with step lt show ?case by (simp add: upt_conv_Cons)
qed

lemma retry_loop_failure:
  assumes "\<forall>i. r \<le> i \<and> i < MAX_RETRIES \<longrightarrow> check_output i = None"
  shows "retry_loop check_output r slept =
         (None, slept @ map (\<lambda>i. RETRY_WAIT * i) [r..<MAX_RETRIES])"
  using assms
proof (induction "MAX_RETRIES - r" arbitrary: r slept)
  case 0
  then show ?case by (simp add: retry_loop.simps [of check_output r slept])
next
  case (Suc d)
  then have lt: "r < MAX_RETRIES" and none: "check_output r = None" by auto
  have step: "retry_loop check_output r slept =
              retry_loop check_output (r + 1) (slept @ [RETRY_WAIT * r])"
    using lt none by (simp add: retry_loop.simps [of check_output r slept])
  have "retry_loop check_output (r + 1) (slept @ [RETRY_WAIT * r]) =
        (None, (slept @ [RETRY_WAIT * r]) @ map (\<lambda>i. RETRY_WAIT * i) [r + 1..<MAX_RETRIES])"
    using Suc.hyps(2) Suc.prems by (intro Suc.hyps(1)) auto
  with step lt show ?case by (simp add: upt_conv_Cons)
qed

lemma sum_list_waits: "sum_list (map (\<lambda>i. RETRY_WAIT * i) [0..<k]) = RETRY_WAIT * (\<Sum>i<k. i)"
  by (induction k) (simp_all add: algebra_simps)

text \<open>
  What \<open>__execute_from_remote\<close> does for every behaviour of the command. A command
  that fails in the runs with \<open>retries = 0, ..., k - 1\<close> and gives its output in the run
  with \<open>retries = k < MAX_RETRIES\<close> returns that output, and \<open>time.sleep\<close> has been called
  with \<open>RETRY_WAIT * 0, ..., RETRY_WAIT * (k - 1)\<close>. A command that fails in all
  \<open>MAX_RETRIES\<close> runs raises \<open>RuntimeError\<close>, and no output is returned.
\<close>

lemma execute_from_remote_success:
  assumes "k < MAX_RETRIES" and "check_output k = Some out" and "\<forall>i < k. check_output i = None"
  shows "fst (execute_from_remote arch check_output cmd) = Inr out"
    and "fst (snd (execute_from_remote arch check_output cmd)) = map (\<lambda>i. RETRY_WAIT * i) [0..<k]"
    and "sum_list (fst (snd (execute_from_remote arch check_output cmd))) = RETRY_WAIT * (\<Sum>i<k. i)"
proof -
  have loop: "retry_loop check_output 0 [] = (Some out, map (\<lambda>i. RETRY_WAIT * i) [0..<k])"
    using assms retry_loop_success [of k check_output out 0 "[]"] by simp
  then show "fst (execute_from_remote arch check_output cmd) = Inr out"
    by (simp add: execute_from_remote_def raise_or_return_def Let_def)
  from loop show w: "fst (snd (execute_from_remote arch check_output cmd)) =
      map (\<lambda>i. RETRY_WAIT * i) [0..<k]"
    by (simp add: execute_from_remote_def Let_def)
  show "sum_list (fst (snd (execute_from_remote arch check_output cmd))) = RETRY_WAIT * (\<Sum>i<k. i)"
    by (simp only: w sum_list_waits)
qed

lemma execute_from_remote_gives_up:
  assumes "\<forall>i < MAX_RETRIES. check_output i = None"
  shows "fst (execute_from_remote arch check_output cmd) =
           Inl (RuntimeError (cmd @ '' failed 3 times. Giving up!''))"
    and "fst (snd (execute_from_remote arch check_output cmd)) = [0, 60, 120]"
proof -
  have loop: "retry_loop check_output 0 [] =
      (None, map (\<lambda>i. RETRY_WAIT * i) [0..<MAX_RETRIES])"
    using assms retry_loop_failure [of 0 check_output "[]"] by simp
  have three: "[0..<MAX_RETRIES] = [0, 1, 2]"
    by (simp add: MAX_RETRIES_def upt_conv_Cons)
  from loop show "fst (execute_from_remote arch check_output cmd) =
      Inl (RuntimeError (cmd @ '' failed 3 times. Giving up!''))"
    by (simp add: execute_from_remote_def raise_or_return_def MAX_RETRIES_def str_int_def Let_def
        str_nat.simps)
  from loop three show "fst (snd (execute_from_remote arch check_output cmd)) = [0, 60, 120]"
    by (simp add: execute_from_remote_def RETRY_WAIT_def Let_def)
qed

text \<open>
  C4. The claim asks for a wait of the delay times the attempt index before each retry:
  the delay itself before the first retry, twice the delay before the second. On the ssh
  command the delay is the constant \<open>RETRY_WAIT\<close>, which the source documents as the
  \<open>number of seconds when retrying a ssh command\<close>: 60. The loop calls
  \<open>time.sleep(self.RETRY_WAIT * retries)\<close> before \<open>retries += 1\<close>, so the factor is one too
  small at every attempt, and the code does not do what the claim and its own comment
  say. A command that fails once and then gives its output is run again at once: the
  only sleep is of 0 seconds, not of 60. A command that fails twice has slept 0 and 60
  seconds, not 60 and 120. A command that fails three times sleeps 120 seconds more
  after the last run, when no retry follows, and only then raises. The last part of the
  claim holds: what is raised is the \<open>RuntimeError\<close>, and no output is returned.
\<close>

theorem execute_from_remote_first_retry_unwaited:
  "RETRY_WAIT * 1 = 60 \<and>
   fst (execute_from_remote None fails_once ''ssh'') = Inr ''ok'' \<and>
   fst (snd (execute_from_remote None fails_once ''ssh'')) = [0] \<and>
   sum_list (fst (snd (execute_from_remote None fails_once ''ssh''))) \<noteq> RETRY_WAIT * 1 \<and>
   fst (execute_from_remote None fails_twice ''ssh'') = Inr ''ok'' \<and>
   fst (snd (execute_from_remote None fails_twice ''ssh'')) = [0, 60] \<and>
   sum_list (fst (snd (execute_from_remote None fails_twice ''ssh''))) \<noteq> RETRY_WAIT * 1 + RETRY_WAIT * 2 \<and>
   fst (execute_from_remote None always_fails ''ssh'') =
     Inl (RuntimeError ''ssh failed 3 times. Giving up!'') \<and>
   fst (snd (execute_from_remote None always_fails ''ssh'')) = [0, 60, 120]"
  by (simp add: execute_from_remote_def retry_loop.simps MAX_RETRIES_def RETRY_WAIT_def Let_def
      raise_or_return_def fails_once_def fails_twice_def always_fails_def str_int_def str_nat.simps)

section \<open>Archive round trip\<close>

text \<open>
  C5. \<open>__execute_from_remote\<close> stores its outcome under the sanitized command, the
  bytes of a success and the \<open>RuntimeError\<close> of a failure alike. Executing the command
  from the archive then gives that outcome back: the stored bytes are returned, a stored
  error is raised again. So a replay of a command behaves as its live run did.
\<close>

theorem archive_round_trip:
  "execute_from_archive (Some (store a (sanitize_for_archive cmd) (Data d))) cmd = Inr d \<and>
   execute_from_archive (Some (store a (sanitize_for_archive cmd) (Failed msg))) cmd =
     Inl (RuntimeError msg) \<and>
   snd (snd (execute_from_remote (Some a) check_output cmd)) =
     Some (store a (sanitize_for_archive cmd)
       (case fst (retry_loop check_output 0 []) of
          None \<Rightarrow> Failed (cmd @ '' failed 3 times. Giving up!'')
        | Some out \<Rightarrow> Data out)) \<and>
   execute_from_archive (snd (snd (execute_from_remote (Some a) check_output cmd))) cmd =
     fst (execute_from_remote (Some a) check_output cmd) \<and>
   fst (execute True (snd (snd (execute False (Some a) check_output cmd))) check_output' cmd) =
     fst (execute False (Some a) check_output cmd)"
  by (cases "retry_loop check_output 0 []")
    (auto simp: execute_def execute_from_archive_def execute_from_remote_def store_def retrieve_def
      raise_or_return_def Let_def MAX_RETRIES_def str_int_def str_nat.simps
      split: option.splits payload.splits)

section \<open>The wait before a request\<close>

text \<open>
  C6, as the source has it. With throttling enabled, a remaining quota at or below the
  floor and a known reset value \<open>T\<close>, the wait before a live request is \<open>max(0, T)\<close>
  seconds: \<open>calculate_time_to_reset\<close> takes the value of the reset header as the number
  of seconds to wait and subtracts no current time. With throttling disabled, with an
  unknown quota, with a quota above the floor, or in replay mode, there is no sleep.
\<close>

theorem pre_request_wait_seconds:
  "(\<not> from_archive c \<and> sleep_for_rate c \<and> rate_limit c = Some q \<and> q \<le> min_rate_to_sleep c \<and>
    rate_limit_reset_ts c = Some T \<longrightarrow>
      calculate_time_to_reset c = Inr (max 0 T) \<and>
      pre_request_wait c = Inr (max 0 T, c\<lparr>rate_limit := None, rate_limit_reset_ts := None\<rparr>)) \<and>
   (\<not> sleep_for_rate c \<or> rate_limit c = None \<or> from_archive c \<or>
    (\<exists>q. rate_limit c = Some q \<and> min_rate_to_sleep c < q) \<longrightarrow>
      pre_request_wait c = Inr (0, c))"
  by (auto simp: pre_request_wait_def sleep_for_rate_limit_def calculate_time_to_reset_def max_def)

theorem pre_request_wait_seconds_witness:
  "\<not> from_archive throttled_client \<and> sleep_for_rate throttled_client \<and>
   rate_limit throttled_client = Some 0 \<and> (0 :: int) \<le> min_rate_to_sleep throttled_client \<and>
   rate_limit_reset_ts throttled_client = Some 100 \<and>
   pre_request_wait throttled_client =
     Inr (100, throttled_client\<lparr>rate_limit := None, rate_limit_reset_ts := None\<rparr>) \<and>
   pre_request_wait (throttled_client\<lparr>rate_limit_reset_ts := Some (- 5)\<rparr>) =
     Inr (0, throttled_client\<lparr>rate_limit := None, rate_limit_reset_ts := None\<rparr>) \<and>
   pre_request_wait (throttled_client\<lparr>sleep_for_rate := False\<rparr>) =
     Inr (0, throttled_client\<lparr>sleep_for_rate := False\<rparr>) \<and>
   pre_request_wait (throttled_client\<lparr>rate_limit := None\<rparr>) =
     Inr (0, throttled_client\<lparr>rate_limit := None\<rparr>)"
  using pre_request_wait_seconds [where c = throttled_client and q = 0 and T = 100]
    pre_request_wait_seconds
      [where c = "throttled_client\<lparr>rate_limit_reset_ts := Some (- 5)\<rparr>" and q = 0 and T = "- 5"]
    pre_request_wait_seconds [where c = "throttled_client\<lparr>sleep_for_rate := False\<rparr>"]
    pre_request_wait_seconds [where c = "throttled_client\<lparr>rate_limit := None\<rparr>"]
  by (simp add: throttled_client_def)

text \<open>
  C6 as it is written: a wait of \<open>max(0, T - now)\<close>. With the reset value 100 read
  at the time 40 that would be 60 seconds; the client waits 100.
\<close>

theorem pre_request_wait_now_counterexample:
  "pre_request_wait throttled_client =
     Inr (100, throttled_client\<lparr>rate_limit := None, rate_limit_reset_ts := None\<rparr>) \<and>
   (100 :: int) \<noteq> max 0 (100 - 40)"
  by (simp add: pre_request_wait_def sleep_for_rate_limit_def calculate_time_to_reset_def
      throttled_client_def)

section \<open>The archive key does not depend on the credentials\<close>

lemma non_space_at [simp]: "non_space (CHR ''@'')"
  by (simp add: non_space_def py_isspace_def)

lemma not_non_space_blank [simp]: "\<not> non_space (CHR '' '')"
  by (simp add: non_space_def py_isspace_def)

declare sanitize_for_archive.simps(2) [simp del]

text \<open>A match does not reach over a space: the text before a space is sanitized on its own.\<close>

lemma sanitize_append_space:
  "sanitize_for_archive (xs @ CHR '' '' # ys) =
   sanitize_for_archive xs @ sanitize_for_archive (CHR '' '' # ys)"
proof (induction xs rule: sanitize_for_archive.induct)
  case 1
  show ?case by simp
next
  case (2 c cs)
  have tw: "takeWhile non_space (cs @ CHR '' '' # ys) = takeWhile non_space cs"
    by (simp add: takeWhile_tail)
  have dw: "dropWhile non_space (cs @ CHR '' '' # ys) = dropWhile non_space cs @ CHR '' '' # ys"
    by (induction cs) auto
  note long = sanitize_for_archive.simps(2) [of c "cs @ CHR '' '' # ys"]
  note short = sanitize_for_archive.simps(2) [of c cs]
  show ?case
  proof (cases "c = CHR '' '' \<and> CHR ''@'' \<in> set (takeWhile non_space cs)")
    case True
    then have cond: "(c = CHR '' '' \<and> CHR ''@'' \<in> set (takeWhile non_space cs)) = True"
      by simp
    from "2.IH"(1) [OF True] show ?thesis
      unfolding append_Cons long short tw dw cond if_True by simp
  next
    case False
    then have cond: "(c = CHR '' '' \<and> CHR ''@'' \<in> set (takeWhile non_space cs)) = False"
      by simp
    from "2.IH"(2) [OF False] show ?thesis
      unfolding append_Cons long short tw cond if_False by simp
  qed
qed

text \<open>
  A word \<open>u\<close> without white space before an \<open>@\<close> is replaced as a whole: what is left of
  the command does not mention \<open>u\<close>.
\<close>

lemma after_last_at_user:
  "after_last_at (u @ CHR ''@'' # w) = after_last_at (CHR ''@'' # w)"
  by (simp add: after_last_at_def takeWhile_tail)

lemma sanitize_user:
  assumes "\<forall>ch \<in> set u. non_space ch"
  shows "sanitize_for_archive (CHR '' '' # u @ CHR ''@'' # rest) =
         '' xxxxx@'' @ after_last_at (CHR ''@'' # takeWhile non_space rest) @
         sanitize_for_archive (dropWhile non_space rest)"
proof -
  from assms have tw: "takeWhile non_space (u @ CHR ''@'' # rest) =
      u @ CHR ''@'' # takeWhile non_space rest"
    by (simp add: takeWhile_append2)
  from assms have dw: "dropWhile non_space (u @ CHR ''@'' # rest) = dropWhile non_space rest"
    by (simp add: dropWhile_append2)
  show ?thesis
    by (simp add: sanitize_for_archive.simps(2) [of "CHR '' ''"] tw dw after_last_at_user
        del: append_Cons)
qed

lemma ssh_opts_user [simp]: "ssh_opts (c\<lparr>gerrit_user := u\<rparr>) = ssh_opts c"
  by (simp add: ssh_opts_def)

lemma cmd_head_user [simp]: "cmd_head (c\<lparr>gerrit_user := u\<rparr>) = cmd_head c"
  by (simp add: cmd_head_def)

lemma gerrit_cmd_split:
  "gerrit_cmd c @ rest =
   cmd_head c @ CHR '' '' # fmt_s (gerrit_user c) @ CHR ''@'' # (repository c @ '' gerrit '' @ rest)"
  by (simp add: gerrit_cmd_def cmd_head_def)

lemma sanitize_gerrit_cmd:
  assumes "\<forall>ch \<in> set (fmt_s u). non_space ch"
  shows "sanitize_for_archive (gerrit_cmd (c\<lparr>gerrit_user := u\<rparr>) @ rest) =
         sanitize_for_archive (cmd_head c) @ '' xxxxx@'' @
         after_last_at (CHR ''@'' # takeWhile non_space (repository c @ '' gerrit '' @ rest)) @
         sanitize_for_archive (dropWhile non_space (repository c @ '' gerrit '' @ rest))"
  using sanitize_user [OF assms]
  by (simp only: gerrit_cmd_split sanitize_append_space) simp

lemma query_args_user [simp]: "query_args (c\<lparr>gerrit_user := u\<rparr>) li = query_args c li"
  by (simp add: query_args_def)

text \<open>
  C8, as the source has it. Two Gerrit commands that differ in the ssh user only have the
  same sanitized command, which is also that of the user \<open>xxxxx\<close>, provided that the user
  is one word, without white space: the prefix of every command, the version command
  and the query commands. Two Meetup requests that differ in the bearer token only have
  the same sanitized request, and no sanitized request has an \<open>Authorization\<close> header.
\<close>

theorem sanitize_credential_independent:
  "((\<forall>ch \<in> set (fmt_s u1). non_space ch) \<and> (\<forall>ch \<in> set (fmt_s u2). non_space ch) \<longrightarrow>
      sanitize_for_archive (gerrit_cmd (c\<lparr>gerrit_user := u1\<rparr>) @ rest) =
        sanitize_for_archive (gerrit_cmd (c\<lparr>gerrit_user := u2\<rparr>) @ rest) \<and>
      sanitize_for_archive (gerrit_cmd (c\<lparr>gerrit_user := u1\<rparr>) @ rest) =
        sanitize_for_archive (gerrit_cmd (c\<lparr>gerrit_user := Some ''xxxxx''\<rparr>) @ rest) \<and>
      sanitize_for_archive (version_cmd (c\<lparr>gerrit_user := u1\<rparr>)) =
        sanitize_for_archive (version_cmd (c\<lparr>gerrit_user := u2\<rparr>)) \<and>
      map_sum id sanitize_for_archive (get_gerrit_cmd (c\<lparr>gerrit_user := u1\<rparr>) li filt) =
        map_sum id sanitize_for_archive (get_gerrit_cmd (c\<lparr>gerrit_user := u2\<rparr>) li filt)) \<and>
   meetup_sanitize_for_archive url (fetch_headers (mc\<lparr>api_token := t1\<rparr>)) payload =
     meetup_sanitize_for_archive url (fetch_headers (mc\<lparr>api_token := t2\<rparr>)) payload \<and>
   meetup_sanitize_for_archive url (hs(PKEY_OAUTH2 \<mapsto> v1)) payload =
     meetup_sanitize_for_archive url (hs(PKEY_OAUTH2 \<mapsto> v2)) payload \<and>
   fst (snd (meetup_sanitize_for_archive url hs payload)) PKEY_OAUTH2 = None"
proof (intro conjI impI)
  assume h: "(\<forall>ch \<in> set (fmt_s u1). non_space ch) \<and> (\<forall>ch \<in> set (fmt_s u2). non_space ch)"
  have x: "\<forall>ch \<in> set (fmt_s (Some ''xxxxx'')). non_space ch"
    by (simp add: fmt_s_def non_space_def py_isspace_def)
  have eq: "sanitize_for_archive (gerrit_cmd (c\<lparr>gerrit_user := u1\<rparr>) @ r) =
            sanitize_for_archive (gerrit_cmd (c\<lparr>gerrit_user := u2\<rparr>) @ r)" for r
    using h by (simp add: sanitize_gerrit_cmd)
  show "sanitize_for_archive (gerrit_cmd (c\<lparr>gerrit_user := u1\<rparr>) @ rest) =
        sanitize_for_archive (gerrit_cmd (c\<lparr>gerrit_user := u2\<rparr>) @ rest)"
    by (rule eq)
  show "sanitize_for_archive (gerrit_cmd (c\<lparr>gerrit_user := u1\<rparr>) @ rest) =
        sanitize_for_archive (gerrit_cmd (c\<lparr>gerrit_user := Some ''xxxxx''\<rparr>) @ rest)"
    using h x by (simp add: sanitize_gerrit_cmd)
  show "sanitize_for_archive (version_cmd (c\<lparr>gerrit_user := u1\<rparr>)) =
        sanitize_for_archive (version_cmd (c\<lparr>gerrit_user := u2\<rparr>))"
    unfolding version_cmd_def by (rule eq)
  show "map_sum id sanitize_for_archive (get_gerrit_cmd (c\<lparr>gerrit_user := u1\<rparr>) li filt) =
        map_sum id sanitize_for_archive (get_gerrit_cmd (c\<lparr>gerrit_user := u2\<rparr>) li filt)"
    using eq by (simp add: get_gerrit_cmd_def split: sum.splits)
next
  show "meetup_sanitize_for_archive url (fetch_headers (mc\<lparr>api_token := t1\<rparr>)) payload =
        meetup_sanitize_for_archive url (fetch_headers (mc\<lparr>api_token := t2\<rparr>)) payload"
    by (auto simp: meetup_sanitize_for_archive_def fetch_headers_def)
next
  show "meetup_sanitize_for_archive url (hs(PKEY_OAUTH2 \<mapsto> v1)) payload =
        meetup_sanitize_for_archive url (hs(PKEY_OAUTH2 \<mapsto> v2)) payload"
    by (simp add: meetup_sanitize_for_archive_def)
next
  show "fst (snd (meetup_sanitize_for_archive url hs payload)) PKEY_OAUTH2 = None"
    by (simp add: meetup_sanitize_for_archive_def)
qed

lemmas sanitize_eval =
  sanitize_for_archive.simps non_space_def py_isspace_def after_last_at_def

theorem sanitize_credential_independent_witness:
  "(CHR ''a'' \<in> set (fmt_s (Some ''alice'')) \<and> non_space (CHR ''a'')) \<and>
   (CHR ''b'' \<in> set (fmt_s (Some ''bob'')) \<and> non_space (CHR ''b'')) \<and>
   sanitize_for_archive (version_cmd (example_client\<lparr>gerrit_user := Some ''alice''\<rparr>)) =
     ''ssh  -p 29418 xxxxx@review.example.org gerrit  version '' \<and>
   sanitize_for_archive (version_cmd (example_client\<lparr>gerrit_user := Some ''bob''\<rparr>)) =
     ''ssh  -p 29418 xxxxx@review.example.org gerrit  version '' \<and>
   fst (snd (meetup_sanitize_for_archive ''https://api.meetup.com/gql''
              (fetch_headers (throttled_client\<lparr>api_token := ''secret''\<rparr>)) ''{}'')) =
     [''Content-Type'' \<mapsto> ''application/json''] \<and>
   meetup_sanitize_for_archive ''https://api.meetup.com/gql''
     (fetch_headers (throttled_client\<lparr>api_token := ''secret''\<rparr>)) ''{}'' =
   meetup_sanitize_for_archive ''https://api.meetup.com/gql''
     (fetch_headers (throttled_client\<lparr>api_token := ''other''\<rparr>)) ''{}''"
proof -
  have a: "sanitize_for_archive (version_cmd (example_client\<lparr>gerrit_user := Some ''alice''\<rparr>)) =
     ''ssh  -p 29418 xxxxx@review.example.org gerrit  version ''"
    by (simp add: version_cmd_def gerrit_cmd_def example_client_def truthy_def fmt_s_def
        ssh_opts_def sanitize_eval)
  have users: "(\<forall>ch \<in> set (fmt_s (Some ''alice'')). non_space ch) \<and>
      (\<forall>ch \<in> set (fmt_s (Some ''bob'')). non_space ch)"
    by (simp add: fmt_s_def non_space_def py_isspace_def)
  have h: "fst (snd (meetup_sanitize_for_archive ''https://api.meetup.com/gql''
              (fetch_headers (throttled_client\<lparr>api_token := ''secret''\<rparr>)) ''{}'')) =
     [''Content-Type'' \<mapsto> ''application/json'']"
    by (auto simp: meetup_sanitize_for_archive_def fetch_headers_def PKEY_OAUTH2_def)
  from sanitize_credential_independent
    [where ?u1.0 = "Some ''alice''" and ?u2.0 = "Some ''bob''" and c = example_client
       and url = "''https://api.meetup.com/gql''" and mc = throttled_client
       and ?t1.0 = "''secret''" and ?t2.0 = "''other''" and payload = "''{}''"] users a h
  show ?thesis by (simp add: fmt_s_def)
qed

text \<open>
  Without that proviso C8 fails: \<open>sanitize_for_archive\<close> replaces the last word
  before the \<open>@\<close>, so of a user text with a space in it the words before the last stay
  in the command, and two such users give two archive keys.
\<close>

theorem sanitize_user_with_space_counterexample:
  "sanitize_for_archive (version_cmd (example_client\<lparr>gerrit_user := Some ''john doe''\<rparr>)) =
     ''ssh  -p 29418 john xxxxx@review.example.org gerrit  version '' \<and>
   sanitize_for_archive (version_cmd (example_client\<lparr>gerrit_user := Some ''jane doe''\<rparr>)) =
     ''ssh  -p 29418 jane xxxxx@review.example.org gerrit  version '' \<and>
   sanitize_for_archive (version_cmd (example_client\<lparr>gerrit_user := Some ''john doe''\<rparr>)) \<noteq>
   sanitize_for_archive (version_cmd (example_client\<lparr>gerrit_user := Some ''jane doe''\<rparr>))"
  by (simp add: version_cmd_def gerrit_cmd_def example_client_def truthy_def fmt_s_def
      ssh_opts_def sanitize_eval)

section \<open>The walks over comments and tickets end\<close>

lemma comments_walk_complete:
  assumes "0 < limit" and "serves srv limit cnt"
    and "0 \<le> off" and "off \<le> cnt" and "0 < fuel" and "cnt - off \<le> int fuel * limit"
  shows "\<exists>ps. comments_walk fuel srv limit off = (ps, Completed) \<and>
              int (length (concat ps)) = cnt - off"
  using assms(3-6)
proof (induction fuel arbitrary: off)
  case 0
  then show ?case by simp
next
  case (Suc fuel)
  from assms(2) Suc.prems(1,2)
  have "case srv off limit of
      Inl e \<Rightarrow> False
    | Inr cn \<Rightarrow> count cn = cnt \<and> int (length (comment_edges cn)) = min limit (cnt - off)"
    unfolding serves_def by blast
  then obtain cn where cn: "srv off limit = Inr cn"
    and c: "count cn = cnt" and len: "int (length (comment_edges cn)) = min limit (cnt - off)"
    by (cases "srv off limit") auto
  show ?case
  proof (cases "off + limit \<ge> cnt")
    case True
    with cn c len show ?thesis by (simp add: min_def)
  next
    case False
    then have more: "off + limit < cnt" by simp
    with Suc.prems(4) assms(1) have fuel: "0 < fuel"
      by (cases fuel) (auto simp: algebra_simps)
    have "cnt - (off + limit) \<le> int fuel * limit"
      using Suc.prems(4) by (simp add: algebra_simps)
    with Suc.IH [of "off + limit"] Suc.prems(1) assms(1) more fuel
    obtain ps where ps: "comments_walk fuel srv limit (off + limit) = (ps, Completed)"
      and n: "int (length (concat ps)) = cnt - (off + limit)"
      by auto
    from more len have "int (length (comment_edges cn)) = limit" by (simp add: min_def)
    with cn c False ps n show ?thesis by simp
  qed
qed

lemma rsvps_walk_complete:
  assumes "ticket_chain srv limit cursor ts" and "length ts \<le> fuel"
  shows "rsvps_walk fuel srv limit cursor = (map ticket_edges ts, Completed)"
  using assms
proof (induction ts arbitrary: cursor fuel)
  case Nil
  then show ?case by simp
next
  case (Cons t ts)
  from Cons.prems(2) obtain f where f: "fuel = Suc f" and le: "length ts \<le> f"
    by (cases fuel) auto
  from Cons.prems(1) have t: "srv limit (fmt_cursor cursor) = Inr t" by simp
  show ?case
  proof (cases "ts = []")
    case True
    with Cons.prems(1) t f show ?thesis by simp
  next
    case False
    with Cons.prems(1) have nxt: "hasNextPage (ticket_pageInfo t)"
      and ch: "ticket_chain srv limit (endCursor (ticket_pageInfo t)) ts"
      by simp_all
    from Cons.IH [OF ch le] t nxt f show ?thesis by simp
  qed
qed

text \<open>
  C9, as the source has it. With a page size \<open>max_items\<close> of at least one and a server
  that gives, at each offset, the next \<open>min(max_items, count - offset)\<close> of the \<open>count\<close>
  comments of an event, the comments walk ends after at most \<open>fuel\<close> requests, for any
  \<open>fuel > 0\<close> with \<open>count \<le> fuel * max_items\<close>, and the pages it yields hold \<open>count\<close>
  edges in all. The tickets walk follows the cursors of the server from \<open>null\<close>: if the
  pages on that way are \<open>ts\<close>, the last of them the first one without a next page, it ends
  after \<open>length ts\<close> requests and yields the edges of just these pages.
\<close>

theorem sub_resource_walks_end:
  "(0 < max_items c \<and> serves (event_comments api eid) (max_items c) cnt \<and> 0 \<le> cnt \<and>
    0 < fuel \<and> cnt \<le> int fuel * max_items c \<longrightarrow>
      (\<exists>ps. comments_pages fuel api c eid = (ps, Completed) \<and> int (length (concat ps)) = cnt)) \<and>
   (ticket_chain (event_tickets api eid) (max_items c) ''null'' ts \<and> length ts \<le> fuel \<longrightarrow>
      rsvps_pages fuel api c eid = (map ticket_edges ts, Completed))"
proof (intro conjI impI)
  assume "0 < max_items c \<and> serves (event_comments api eid) (max_items c) cnt \<and> 0 \<le> cnt \<and>
    0 < fuel \<and> cnt \<le> int fuel * max_items c"
  then show "\<exists>ps. comments_pages fuel api c eid = (ps, Completed) \<and> int (length (concat ps)) = cnt"
    using comments_walk_complete [of "max_items c" "event_comments api eid" cnt 0 fuel]
    by (simp add: comments_pages_def)
next
  assume "ticket_chain (event_tickets api eid) (max_items c) ''null'' ts \<and> length ts \<le> fuel"
  then show "rsvps_pages fuel api c eid = (map ticket_edges ts, Completed)"
    using rsvps_walk_complete by (simp add: rsvps_pages_def)
qed

lemma example_api_serves: "serves (event_comments example_api ''new'') 2 3"
  unfolding serves_def
proof (intro allI impI)
  fix off :: int
  assume "0 \<le> off \<and> off \<le> 3"
  then have "off = 0 \<or> off = 1 \<or> off = 2 \<or> off = 3" by auto
  then show "case event_comments example_api ''new'' off 2 of
      Inl e \<Rightarrow> False
    | Inr comments_node \<Rightarrow>
        count comments_node = 3 \<and> int (length (comment_edges comments_node)) = min 2 (3 - off)"
    by (auto simp: example_api_def numeral_2_eq_2 numeral_3_eq_3)
qed

theorem sub_resource_walks_end_witness:
  "(0 :: int) < max_items (throttled_client\<lparr>max_items := 2\<rparr>) \<and>
   serves (event_comments example_api ''new'') (max_items (throttled_client\<lparr>max_items := 2\<rparr>)) 3 \<and>
   (3 :: int) \<le> int 2 * max_items (throttled_client\<lparr>max_items := 2\<rparr>) \<and>
   comments_pages 2 example_api (throttled_client\<lparr>max_items := 2\<rparr>) ''new'' =
     ([[''c1'', ''c2''], [''c3'']], Completed) \<and>
   ticket_chain (event_tickets example_api ''new'') 2 ''null''
     [\<lparr>ticket_edges = [''t1'', ''t2''], ticket_pageInfo = \<lparr>hasNextPage = True, endCursor = ''abc''\<rparr>\<rparr>,
      \<lparr>ticket_edges = [''t3''], ticket_pageInfo = \<lparr>hasNextPage = False, endCursor = ''xyz''\<rparr>\<rparr>] \<and>
   rsvps_pages 2 example_api (throttled_client\<lparr>max_items := 2\<rparr>) ''new'' =
     ([[''t1'', ''t2''], [''t3'']], Completed)"
proof -
  have ch: "ticket_chain (event_tickets example_api ''new'') 2 ''null''
     [\<lparr>ticket_edges = [''t1'', ''t2''], ticket_pageInfo = \<lparr>hasNextPage = True, endCursor = ''abc''\<rparr>\<rparr>,
      \<lparr>ticket_edges = [''t3''], ticket_pageInfo = \<lparr>hasNextPage = False, endCursor = ''xyz''\<rparr>\<rparr>]"
    by (simp add: example_api_def fmt_cursor_def)
  have pages: "comments_pages 2 example_api (throttled_client\<lparr>max_items := 2\<rparr>) ''new'' =
     ([[''c1'', ''c2''], [''c3'']], Completed)"
    by (simp add: comments_pages_def example_api_def throttled_client_def numeral_2_eq_2)
  from sub_resource_walks_end
    [where c = "throttled_client\<lparr>max_items := 2\<rparr>" and api = example_api and eid = "''new''"
       and cnt = 3 and fuel = 2
       and ts = "[\<lparr>ticket_edges = [''t1'', ''t2''], ticket_pageInfo = \<lparr>hasNextPage = True, endCursor = ''abc''\<rparr>\<rparr>,
      \<lparr>ticket_edges = [''t3''], ticket_pageInfo = \<lparr>hasNextPage = False, endCursor = ''xyz''\<rparr>\<rparr>]"]
    example_api_serves ch pages
  show ?thesis by (simp add: throttled_client_def)
qed

text \<open>
  With \<open>max_items = 0\<close> the offset never moves: the walk over a collection that is not
  empty asks for the same page for ever.
\<close>

lemma comments_walk_zero_limit:
  assumes "srv 0 0 = Inr cn" and "0 < count cn"
  shows "comments_walk fuel srv 0 0 = (replicate fuel (comment_edges cn), Starved)"
  using assms by (induction fuel) simp_all

text \<open>
  So C9 fails without a positive page size. The example server gives pages of
  \<open>min(0, 3 - offset) = 0\<close> edges of its 3 comments, as the claim assumes, and the walk
  with \<open>max_items = 0\<close> is not over after any number of requests.
\<close>

theorem comments_walk_zero_limit_counterexample:
  "serves (event_comments example_api ''new'') 0 3 \<and>
   (\<forall>fuel. comments_pages fuel example_api (throttled_client\<lparr>max_items := 0\<rparr>) ''new'' =
      (replicate fuel [], Starved))"
proof
  show "serves (event_comments example_api ''new'') 0 3"
    by (simp add: serves_def example_api_def)
  show "\<forall>fuel. comments_pages fuel example_api (throttled_client\<lparr>max_items := 0\<rparr>) ''new'' =
      (replicate fuel [], Starved)"
    using comments_walk_zero_limit
      [of "event_comments example_api ''new''" "\<lparr>count = 3, comment_edges = []\<rparr>"]
    by (simp add: comments_pages_def example_api_def throttled_client_def)
qed

section \<open>The update time of a Meetup item\<close>

lemma fetch_events_fetched_on:
  "j < length (fst (fetch_events fuel api c clock k evs st)) \<Longrightarrow>
   fetched_on (fst (fetch_events fuel api c clock k evs st) ! j) = Some (clock (k + j))"
proof (induction evs arbitrary: k j)
  case Nil
  then show ?case by simp
next
  case (Cons ev evs)
  show ?case
  proof (cases "fetch_and_parse_comments fuel api c (event_id ev)")
    case (Inl s)
    with Cons.prems show ?thesis by simp
  next
    case cs: (Inr cs)
    show ?thesis
    proof (cases "fetch_and_parse_rsvps fuel api c (event_id ev)")
      case (Inl s)
      with cs Cons.prems show ?thesis by simp
    next
      case rs: (Inr rs)
      show ?thesis
      proof (cases j)
        case 0
        with cs rs show ?thesis by (simp add: case_prod_beta)
      next
        case (Suc i)
        with cs rs Cons.prems
        have "i < length (fst (fetch_events fuel api c clock (Suc k) evs st))"
          by (simp add: case_prod_beta)
        from Cons.IH [OF this] cs rs Suc show ?thesis by (simp add: case_prod_beta)
      qed
    qed
  qed
qed

text \<open>Two fetches that differ in the clock only: the same items, but for \<open>fetched_on\<close>.\<close>

lemma fetch_events_clock:
  "map (\<lambda>e. e\<lparr>fetched_on := None\<rparr>) (fst (fetch_events fuel api c clock1 k1 evs st)) =
   map (\<lambda>e. e\<lparr>fetched_on := None\<rparr>) (fst (fetch_events fuel api c clock2 k2 evs st))"
proof (induction evs arbitrary: k1 k2)
  case Nil
  show ?case by simp
next
  case (Cons ev evs)
  from Cons.IH [of "Suc k1" "Suc k2"] show ?case
    by (simp add: case_prod_beta split: sum.splits)
qed

text \<open>
  C10. The item with index \<open>j\<close> that the Meetup backend yields has \<open>fetched_on\<close> set to
  the reading of the clock taken for it, and \<open>metadata_updated_on\<close> returns that
  reading; the \<open>dateTime\<close> of the event has no part in it. So two fetches of the same
  events whose clock readings differ yield items that are equal but for \<open>fetched_on\<close>,
  with different update times.
\<close>

theorem meetup_update_time_is_fetch_time:
  "(\<forall>j < length (fst (meetup_fetch_items fuel api c clock grp from_date replies)).
      fetched_on (fst (meetup_fetch_items fuel api c clock grp from_date replies) ! j) =
        Some (clock j) \<and>
      metadata_updated_on (fst (meetup_fetch_items fuel api c clock grp from_date replies) ! j) =
        Inr (clock j)) \<and>
   metadata_updated_on (item\<lparr>dateTime := d\<rparr>) = metadata_updated_on item \<and>
   map (\<lambda>e. e\<lparr>fetched_on := None\<rparr>)
       (fst (meetup_fetch_items fuel api c clock grp from_date replies)) =
     map (\<lambda>e. e\<lparr>fetched_on := None\<rparr>)
       (fst (meetup_fetch_items fuel api c clock' grp from_date replies)) \<and>
   (i < length (fst (meetup_fetch_items fuel api c clock grp from_date replies)) \<and>
    clock i \<noteq> clock' i \<longrightarrow>
      metadata_updated_on (fst (meetup_fetch_items fuel api c clock grp from_date replies) ! i) \<noteq>
      metadata_updated_on (fst (meetup_fetch_items fuel api c clock' grp from_date replies) ! i))"
proof -
  obtain evs st where w: "events api grp from_date replies = (evs, st)"
    by (cases "events api grp from_date replies")
  have items: "fst (meetup_fetch_items fuel api c k grp from_date replies) =
      fst (fetch_events fuel api c k 0 evs st)" for k
    using w by (simp add: meetup_fetch_items_def)
  have on: "fetched_on (fst (fetch_events fuel api c k 0 evs st) ! j) = Some (k j)"
    if "j < length (fst (fetch_events fuel api c k 0 evs st))" for k j
    using fetch_events_fetched_on [OF that] by simp
  have same: "map (\<lambda>e. e\<lparr>fetched_on := None\<rparr>) (fst (fetch_events fuel api c clock 0 evs st)) =
      map (\<lambda>e. e\<lparr>fetched_on := None\<rparr>) (fst (fetch_events fuel api c clock' 0 evs st))"
    by (rule fetch_events_clock)
  then have len: "length (fst (fetch_events fuel api c clock 0 evs st)) =
      length (fst (fetch_events fuel api c clock' 0 evs st))"
    using map_eq_imp_length_eq by blast
  show ?thesis
    unfolding items
  proof (intro conjI allI impI)
    fix j assume j: "j < length (fst (fetch_events fuel api c clock 0 evs st))"
    from on [OF j] show "fetched_on (fst (fetch_events fuel api c clock 0 evs st) ! j) = Some (clock j)" .
    from on [OF j]
    show "metadata_updated_on (fst (fetch_events fuel api c clock 0 evs st) ! j) = Inr (clock j)"
      by (simp add: metadata_updated_on_def)
  next
    show "metadata_updated_on (item\<lparr>dateTime := d\<rparr>) = metadata_updated_on item"
      by (simp add: metadata_updated_on_def)
  next
    show "map (\<lambda>e. e\<lparr>fetched_on := None\<rparr>) (fst (fetch_events fuel api c clock 0 evs st)) =
      map (\<lambda>e. e\<lparr>fetched_on := None\<rparr>) (fst (fetch_events fuel api c clock' 0 evs st))"
      by (rule same)
  next
    assume h: "i < length (fst (fetch_events fuel api c clock 0 evs st)) \<and> clock i \<noteq> clock' i"
    then have i': "i < length (fst (fetch_events fuel api c clock' 0 evs st))"
      using len by simp
    from h on [of i clock] on [OF i']
    show "metadata_updated_on (fst (fetch_events fuel api c clock 0 evs st) ! i) \<noteq>
          metadata_updated_on (fst (fetch_events fuel api c clock' 0 evs st) ! i)"
      by (simp add: metadata_updated_on_def)
  qed
qed

lemmas meetup_eval =
  meetup_fetch_items_def events_def example_api_def example_listing_def VEVENT_TYPES_def
  fetch_and_parse_comments_def fetch_and_parse_rsvps_def comments_pages_def rsvps_pages_def
  fmt_cursor_def throttled_client_def

theorem meetup_update_time_is_fetch_time_witness:
  "fst (meetup_fetch_items 2 example_api throttled_client (\<lambda>k. 1700000000 + real k)
          ''grimoire'' 300 example_listing) =
     [\<lparr>event_id = ''new'', dateTime = ''2024-05-01T18:00+0000'',
       comments = Some [''c1'', ''c2'', ''c3''], rsvps = Some [''t1'', ''t2'', ''t3''],
       fetched_on = Some 1700000000\<rparr>] \<and>
   metadata_updated_on
     (fst (meetup_fetch_items 2 example_api throttled_client (\<lambda>k. 1700000000 + real k)
          ''grimoire'' 300 example_listing) ! 0) = Inr 1700000000 \<and>
   metadata_updated_on
     (fst (meetup_fetch_items 2 example_api throttled_client (\<lambda>k. 1700086400 + real k)
          ''grimoire'' 300 example_listing) ! 0) = Inr 1700086400 \<and>
   (1700000000 + real 0 :: real) \<noteq> 1700086400 + real 0 \<and>
   metadata_updated_on
     (fst (meetup_fetch_items 2 example_api throttled_client (\<lambda>k. 1700000000 + real k)
          ''grimoire'' 300 example_listing) ! 0) \<noteq>
   metadata_updated_on
     (fst (meetup_fetch_items 2 example_api throttled_client (\<lambda>k. 1700086400 + real k)
          ''grimoire'' 300 example_listing) ! 0)"
proof -
  have run: "fst (meetup_fetch_items 2 example_api throttled_client k
          ''grimoire'' 300 example_listing) =
     [\<lparr>event_id = ''new'', dateTime = ''2024-05-01T18:00+0000'',
       comments = Some [''c1'', ''c2'', ''c3''], rsvps = Some [''t1'', ''t2'', ''t3''],
       fetched_on = Some (k 0)\<rparr>]" for k
    by (simp add: meetup_eval numeral_2_eq_2)
  from meetup_update_time_is_fetch_time
    [where fuel = 2 and api = example_api and c = throttled_client
       and clock = "\<lambda>k. 1700000000 + real k" and clock' = "\<lambda>k. 1700086400 + real k"
       and i = 0 and grp = "''grimoire''" and from_date = 300
       and replies = example_listing]
    meetup_update_time_is_fetch_time
    [where fuel = 2 and api = example_api and c = throttled_client
       and clock = "\<lambda>k. 1700086400 + real k" and grp = "''grimoire''" and from_date = 300
       and replies = example_listing]
    run [of "\<lambda>k. 1700000000 + real k"] run [of "\<lambda>k. 1700086400 + real k"]
  show ?thesis by simp
qed

end
